theory Spec2Isabelle
  imports Main "HOL-Library.Word"
begin

unbundle bit_operations_syntax

section \<open>Strings of the runtime\<close>

text \<open>
  A JavaScript string is a sequence of UTF-16 code units. A code unit is modelled as a
  natural number, a string as the list of its code units, so that every string the
  runtime can hold is covered (and \<open>length\<close> counts what \<open>String.length\<close> counts).
  String literals of the source are written with \<open>js\<close>.
\<close>

type_synonym jsstring = "nat list"

definition js :: "string \<Rightarrow> jsstring" where
  "js s = map of_char s"

definition slash :: nat where
  "slash = 47"

definition backslash :: nat where
  "backslash = 92"

definition comma :: nat where
  "comma = 44"

text \<open>
  \<open>String.prototype.split(sep)\<close> with a one-unit separator: the pieces between the
  separators, in order; the empty string gives one empty piece.
\<close>

fun str_split :: "nat \<Rightarrow> jsstring \<Rightarrow> jsstring list" where
  "str_split sep [] = [[]]"
| "str_split sep (c # cs) =
     (if c = sep then [] # str_split sep cs
      else (case str_split sep cs of
              [] \<Rightarrow> [[c]]
            | piece # pieces \<Rightarrow> (c # piece) # pieces))"

text \<open>\<open>Array.prototype.pop()\<close> read as a value: the last element, \<open>undefined\<close> on \<open>[]\<close>.\<close>

fun pop :: "'a list \<Rightarrow> 'a option" where
  "pop [] = None"
| "pop [x] = Some x"
| "pop (x # y # ys) = pop (y # ys)"

text \<open>\<open>value.replace(/\\/g, '/')\<close> and \<open>value.replaceAll('\\', '/')\<close>.\<close>

definition normalizeSeparators :: "jsstring \<Rightarrow> jsstring" where
  "normalizeSeparators value = map (\<lambda>c. if c = backslash then slash else c) value"

text \<open>The character class \<open>[a-zA-Z0-9_.-]\<close>.\<close>

definition isKeyChar :: "nat \<Rightarrow> bool" where
  "isKeyChar c \<longleftrightarrow>
     (97 \<le> c \<and> c \<le> 122) \<or> (65 \<le> c \<and> c \<le> 90) \<or> (48 \<le> c \<and> c \<le> 57)
     \<or> c = 95 \<or> c = 46 \<or> c = 45"

text \<open>
  \<open>String.prototype.toLowerCase()\<close>. The ASCII capitals are mapped to their small
  letters. The runtime also maps capitals beyond ASCII; none of them is mapped to a
  code unit of \<open>.json\<close> or of \<open>true\<close>, the two strings the source compares a
  lower-cased string with, so they are left as they are.
\<close>

definition toLowerCase :: "jsstring \<Rightarrow> jsstring" where
  "toLowerCase s = map (\<lambda>c. if 65 \<le> c \<and> c \<le> 90 then c + 32 else c) s"

definition endsWith :: "jsstring \<Rightarrow> jsstring \<Rightarrow> bool" where
  "endsWith s suffix \<longleftrightarrow>
     length suffix \<le> length s \<and> drop (length s - length suffix) s = suffix"

text \<open>
  \<open>String.prototype.trim()\<close> removes white space and line terminators at both ends:
  TAB, LF, VT, FF, CR, SP, NBSP, U+1680, U+2000 to U+200A, U+2028, U+2029, U+202F,
  U+205F, U+3000 and U+FEFF.
\<close>

definition isWhiteSpace :: "nat \<Rightarrow> bool" where
  "isWhiteSpace c \<longleftrightarrow>
     (9 \<le> c \<and> c \<le> 13) \<or> c = 32 \<or> c = 160 \<or> c = 5760 \<or> (8192 \<le> c \<and> c \<le> 8202)
     \<or> c = 8232 \<or> c = 8233 \<or> c = 8239 \<or> c = 8287 \<or> c = 12288 \<or> c = 65279"

definition trim :: "jsstring \<Rightarrow> jsstring" where
  "trim s = rev (dropWhile isWhiteSpace (rev (dropWhile isWhiteSpace s)))"

section \<open>Storage key sanitizer\<close>

text \<open>
  \<open>sanitizeStorageKey\<close> of the server (and \<open>ensureStorageKey\<close> of the client, which
  is the same function): the empty string for a falsy value, otherwise the last path
  segment with every unit outside the key class removed, or the last segment itself
  when nothing is left of it.
\<close>

definition sanitizeStorageKey :: "jsstring \<Rightarrow> jsstring" where
  "sanitizeStorageKey value =
     (if value = [] then []
      else
        let lastSegment =
              (case pop (str_split slash (normalizeSeparators value)) of
                 None \<Rightarrow> []
               | Some seg \<Rightarrow> seg);
            sanitized = filter isKeyChar lastSegment
        in if sanitized \<noteq> [] then sanitized else lastSegment)"

definition ensureJsonExtension :: "jsstring \<Rightarrow> jsstring" where
  "ensureJsonExtension value =
     (let sanitized = sanitizeStorageKey value
      in if sanitized = [] then js ''environment.json''
         else if endsWith (toLowerCase sanitized) (js ''.json'') then sanitized
         else sanitized @ js ''.json'')"

text \<open>\<open>parseDataFileNames\<close>: \<open>filter(Boolean)\<close> keeps the non-empty names.\<close>

definition parseDataFileNames :: "jsstring \<Rightarrow> jsstring list" where
  "parseDataFileNames value =
     filter (\<lambda>name. name \<noteq> [])
       (map (\<lambda>item. ensureJsonExtension (trim item)) (str_split comma value))"

section \<open>Values\<close>

text \<open>
  The values of JSON: what \<open>JSON.parse\<close> gives for the text of a file or of a
  request body, and what the objects the code builds itself are made of. The members
  of an object are in the order of its properties, one for each key. Numbers are kept
  as integers: the code only asks of a number whether it is zero or equal to
  another, and a number too large for the runtime to hold (which \<open>JSON.parse\<close>
  reads as infinite and \<open>JSON.stringify\<close> writes as \<open>null\<close>) is left out.
\<close>

datatype json =
    JNull
  | JBool bool
  | JNum int
  | JStr jsstring
  | JArr "json list"
  | JObj "(jsstring \<times> json) list"

text \<open>
  \<open>!v\<close> and \<open>typeof v === 'object'\<close> for a value \<open>v\<close>: \<open>null\<close>, \<open>false\<close>,
  \<open>0\<close> and the empty string are falsy; \<open>null\<close>, arrays and objects have type
  \<open>'object'\<close>.
\<close>

definition falsy :: "json \<Rightarrow> bool" where
  "falsy v =
     (case v of
        JNull \<Rightarrow> True
      | JBool b \<Rightarrow> \<not> b
      | JNum n \<Rightarrow> n = 0
      | JStr s \<Rightarrow> s = []
      | JArr _ \<Rightarrow> False
      | JObj _ \<Rightarrow> False)"

definition typeofObject :: "json \<Rightarrow> bool" where
  "typeofObject v =
     (case v of
        JNull \<Rightarrow> True
      | JArr _ \<Rightarrow> True
      | JObj _ \<Rightarrow> True
      | _ \<Rightarrow> False)"

text \<open>
  \<open>v.key\<close> for a value other than \<open>null\<close>, with a key that is no index and not
  \<open>length\<close>: \<open>None\<close> is \<open>undefined\<close>, which is what a primitive and an array
  give. (On \<open>null\<close> the runtime throws; the callers below check for it first.)
\<close>

definition getProp :: "json \<Rightarrow> jsstring \<Rightarrow> json option" where
  "getProp v key = (case v of JObj members \<Rightarrow> map_of members key | _ \<Rightarrow> None)"

text \<open>
  \<open>v.key = x\<close> on an object or an array, read through what \<open>JSON.stringify\<close>
  writes of the value afterwards: an object gets the member, in the place it had or
  at the end; a member set to \<open>undefined\<close> is not written; a named property of an
  array is not written either.
\<close>

fun setMember :: "jsstring \<Rightarrow> json \<Rightarrow> (jsstring \<times> json) list \<Rightarrow> (jsstring \<times> json) list" where
  "setMember key x [] = [(key, x)]"
| "setMember key x (member # members) =
     (if fst member = key then (key, x) # members else member # setMember key x members)"

definition assign :: "json \<Rightarrow> jsstring \<Rightarrow> json option \<Rightarrow> json" where
  "assign v key x =
     (case v of
        JObj members \<Rightarrow>
          (case x of
             Some y \<Rightarrow> JObj (setMember key y members)
           | None \<Rightarrow> JObj (filter (\<lambda>member. fst member \<noteq> key) members))
      | _ \<Rightarrow> v)"

text \<open>
  \<open>a === b\<close> for two property values. Primitives (\<open>null\<close>, booleans, numbers
  and strings) are compared by value. An array or an object is equal to itself only;
  the values compared below come out of different calls of \<open>JSON.parse\<close>, so two of
  them are never the same array or object.
\<close>

definition primitive :: "json \<Rightarrow> bool" where
  "primitive v = (case v of JArr _ \<Rightarrow> False | JObj _ \<Rightarrow> False | _ \<Rightarrow> True)"

definition strictEqual :: "json option \<Rightarrow> json option \<Rightarrow> bool" where
  "strictEqual a b =
     (case (a, b) of
        (None, None) \<Rightarrow> True
      | (Some x, Some y) \<Rightarrow> primitive x \<and> x = y
      | _ \<Rightarrow> False)"

text \<open>An object literal; a property whose value is \<open>undefined\<close> is not written.\<close>

fun definedProperties :: "(jsstring \<times> json option) list \<Rightarrow> (jsstring \<times> json) list" where
  "definedProperties [] = []"
| "definedProperties ((key, None) # rest) = definedProperties rest"
| "definedProperties ((key, Some x) # rest) = (key, x) # definedProperties rest"

definition objectOf :: "(jsstring \<times> json option) list \<Rightarrow> json" where
  "objectOf properties = JObj (definedProperties properties)"

section \<open>Paths\<close>

text \<open>
  \<open>path.join\<close> of two segments on a POSIX system: the non-empty ones are joined by
  a separator and the result is normalised. The normalisation walks the segments
  between the separators: an empty one and \<open>.\<close> are dropped, \<open>..\<close> removes the
  segment before it (or stays, in a relative path, when there is none to remove),
  every other one is kept.
\<close>

fun joinWith :: "nat \<Rightarrow> jsstring list \<Rightarrow> jsstring" where
  "joinWith sep [] = []"
| "joinWith sep [segment] = segment"
| "joinWith sep (segment # next # rest) = segment @ [sep] @ joinWith sep (next # rest)"

definition normalizeStep :: "bool \<Rightarrow> jsstring \<Rightarrow> jsstring list \<Rightarrow> jsstring list" where
  "normalizeStep allowAboveRoot segment res =
     (if segment = [] \<or> segment = js ''.'' then res
      else if segment = js ''..''
      then (if res \<noteq> [] \<and> last res \<noteq> js ''..'' then butlast res
            else if allowAboveRoot then res @ [js ''..'']
            else res)
      else res @ [segment])"

definition normalizeString :: "jsstring \<Rightarrow> bool \<Rightarrow> jsstring" where
  "normalizeString p allowAboveRoot =
     joinWith slash (fold (normalizeStep allowAboveRoot) (str_split slash p) [])"

definition normalize :: "jsstring \<Rightarrow> jsstring" where
  "normalize p =
     (case p of
        [] \<Rightarrow> js ''.''
      | first # _ \<Rightarrow>
          let isAbsolute = (first = slash);
              trailingSeparator = (last p = slash);
              normalized = normalizeString p (\<not> isAbsolute)
          in if normalized = []
             then (if isAbsolute then js ''/'' else if trailingSeparator then js ''./'' else js ''.'')
             else (if isAbsolute then [slash] else []) @ normalized
                  @ (if trailingSeparator then [slash] else []))"

definition pathJoin :: "jsstring \<Rightarrow> jsstring \<Rightarrow> jsstring" where
  "pathJoin dir file =
     (let joined = (if dir = [] then file else if file = [] then dir else dir @ [slash] @ file)
      in if joined = [] then js ''.'' else normalize joined)"

section \<open>Runtime configuration and CLI arguments\<close>

text \<open>
  The constants the server script resolves from the process environment at start. The
  optional ones are \<open>None\<close> when the variable is unset. The last two are the
  constants of the commons package that \<open>buildDefaultSettings\<close> writes; the package
  is not in the sources here.
\<close>

record config =
  DATA_DIR :: jsstring
  ENV_SUBDIR :: jsstring
  DEFAULT_DATA_FILES :: jsstring
  DEFAULT_PORT :: int
  DEFAULT_ENV_NAME :: jsstring
  MOCKOON_ENV_NAMES :: "jsstring option"
  CLI_WATCH :: bool
  CLI_DISABLE_LOG_TO_FILE :: bool
  CLI_POLLING_INTERVAL :: "jsstring option"
  CLI_EXTRA_ARGS :: "jsstring list"
  defaultMaxTransactionLogs :: int
  defaultEnvironmentVariablesPrefix :: jsstring

datatype error =
    NoDataFiles
  | MissingUuid jsstring
  | CouldNotBeParsed jsstring
  | FsError
  | TypeError

definition envDirOf :: "config \<Rightarrow> jsstring" where
  "envDirOf cfg = pathJoin (DATA_DIR cfg) (ENV_SUBDIR cfg)"

definition resolveDataFiles :: "config \<Rightarrow> jsstring list \<Rightarrow> jsstring list" where
  "resolveDataFiles cfg fileNames = map (\<lambda>fileName. pathJoin (envDirOf cfg) fileName) fileNames"

text \<open>
  \<open>buildDefaultCliArgs\<close>: the argument is \<open>None\<close> when the caller passes nothing
  (CLI passthrough mode) and the resolved files of the bootstrap in combined mode.
\<close>

definition buildDefaultCliArgs :: "config \<Rightarrow> jsstring list option \<Rightarrow> error + jsstring list" where
  "buildDefaultCliArgs cfg resolvedDataFiles =
     (let dataFiles =
            (case resolvedDataFiles of
               Some files \<Rightarrow> files
             | None \<Rightarrow> resolveDataFiles cfg (parseDataFileNames (DEFAULT_DATA_FILES cfg)))
      in if dataFiles = [] then Inl NoDataFiles
         else
           Inr ([js ''start'', js ''--data''] @ dataFiles
                @ (if CLI_WATCH cfg then [js ''--watch''] else [])
                @ (if CLI_DISABLE_LOG_TO_FILE cfg then [js ''--disable-log-to-file''] else [])
                @ (case CLI_POLLING_INTERVAL cfg of
                     None \<Rightarrow> []
                   | Some interval \<Rightarrow>
                       if interval = [] then [] else [js ''--polling-interval'', interval])
                @ CLI_EXTRA_ARGS cfg))"

section \<open>Files\<close>

text \<open>
  What reading a path gives: \<open>ENOENT\<close>, another file system error, or the text of
  the file. The text is either text \<open>JSON.parse\<close> rejects (the empty and the blank
  text are such texts) or the output of \<open>JSON.stringify\<close> for a value, indented by
  two spaces (\<open>True\<close>) or compact (\<open>False\<close>).
\<close>

datatype 'c node = NoEnt | Inaccessible | Content 'c

datatype filetext = Unparsable | JsonText bool json

text \<open>
  The file system: the files by path, the paths \<open>fsp.writeFile\<close> was called with, in
  order, and the number of documents \<open>BuildEnvironment\<close> has made so far.
\<close>

record world =
  files :: "jsstring \<Rightarrow> filetext node"
  writes :: "jsstring list"
  built :: nat

definition writeFile :: "world \<Rightarrow> jsstring \<Rightarrow> filetext \<Rightarrow> world" where
  "writeFile w filePath content =
     w\<lparr>files := (files w)(filePath := Content content), writes := writes w @ [filePath]\<rparr>"

definition settingsPathOf :: "config \<Rightarrow> jsstring" where
  "settingsPathOf cfg = pathJoin (DATA_DIR cfg) (js ''settings.json'')"

section \<open>Bootstrap reconciler\<close>

text \<open>\<open>Number.prototype.toString()\<close> of a natural number, in decimal.\<close>

function toString10 :: "nat \<Rightarrow> jsstring" where
  "toString10 n = (if n < 10 then [48 + n] else toString10 (n div 10) @ [48 + n mod 10])"
  by pat_completeness auto
termination
  by (relation "measure (\<lambda>n. n)") auto

declare toString10.simps [simp del]

definition resolvedDefaultName :: "config \<Rightarrow> nat \<Rightarrow> jsstring option" where
  "resolvedDefaultName cfg index =
     (case MOCKOON_ENV_NAMES cfg of
        None \<Rightarrow> None
      | Some names \<Rightarrow>
          if names = [] then None
          else
            let parts = str_split comma names
            in if index < length parts \<and> parts ! index \<noteq> [] then Some (trim (parts ! index))
               else None)"

definition resolvedSuffix :: "nat \<Rightarrow> jsstring" where
  "resolvedSuffix index = (if index = 0 then [] else js ''#'' @ toString10 (index + 1))"

text \<open>
  Modelled from the spec: \<open>BuildEnvironment\<close> of the commons package is not in the
  sources here. The spec has it make an environment document with a new \<open>uuid\<close>, the
  given name and the given port. The identifiers it draws are a parameter: \<open>gen k\<close> is
  the uuid of the \<open>k\<close>-th document made.
\<close>

definition BuildEnvironment :: "(nat \<Rightarrow> jsstring) \<Rightarrow> nat \<Rightarrow> jsstring \<Rightarrow> int \<Rightarrow> json" where
  "BuildEnvironment gen k nm prt =
     JObj [(js ''uuid'', JStr (gen k)), (js ''name'', JStr nm), (js ''port'', JNum prt)]"

text \<open>
  \<open>ensureEnvironmentFile\<close>. A file system error other than \<open>ENOENT\<close> is thrown again,
  by the access check or by the read. A file that is there is parsed; the value must
  be truthy, of type \<open>'object'\<close>, and have a truthy \<open>uuid\<close>. A file that is not
  there is made and written.
\<close>

definition ensureEnvironmentFile ::
  "(nat \<Rightarrow> jsstring) \<Rightarrow> config \<Rightarrow> world \<Rightarrow> jsstring \<Rightarrow> jsstring \<Rightarrow> nat \<Rightarrow> error + (world \<times> json)" where
  "ensureEnvironmentFile gen cfg w filePath fileName index =
     (case files w filePath of
        Inaccessible \<Rightarrow> Inl FsError
      | Content Unparsable \<Rightarrow> Inl (CouldNotBeParsed fileName)
      | Content (JsonText _ parsed) \<Rightarrow>
          if falsy parsed \<or> \<not> typeofObject parsed
             \<or> (case getProp parsed (js ''uuid'') of None \<Rightarrow> True | Some u \<Rightarrow> falsy u)
          then Inl (MissingUuid fileName)
          else Inr (w, parsed)
      | NoEnt \<Rightarrow>
          let nm =
                (case resolvedDefaultName cfg index of
                   Some n \<Rightarrow> if n \<noteq> [] then n else DEFAULT_ENV_NAME cfg @ js '' '' @ resolvedSuffix index
                 | None \<Rightarrow> DEFAULT_ENV_NAME cfg @ js '' '' @ resolvedSuffix index);
              environment = BuildEnvironment gen (built w) nm (DEFAULT_PORT cfg + int index)
          in Inr ((writeFile w filePath (JsonText True environment))\<lparr>built := Suc (built w)\<rparr>,
                  environment))"

text \<open>
  The descriptor pushed for an environment,
  \<open>{uuid: environment.uuid, path: dataFileName, cloud: false, lastServerHash: null}\<close>,
  from the value of \<open>environment.uuid\<close> and the file name.
\<close>

definition newDescriptor :: "json option \<Rightarrow> jsstring \<Rightarrow> json" where
  "newDescriptor environmentUuid dataFileName =
     objectOf [(js ''uuid'', environmentUuid),
               (js ''path'', Some (JStr dataFileName)),
               (js ''cloud'', Some (JBool False)),
               (js ''lastServerHash'', Some JNull)]"

text \<open>
  The loop of \<open>ensureInitialState\<close> over the configured files, from \<open>index\<close> on: each
  file is ensured and its descriptor pushed, in file order.
\<close>

fun ensureEnvironmentFiles ::
  "(nat \<Rightarrow> jsstring) \<Rightarrow> config \<Rightarrow> nat \<Rightarrow> jsstring list \<Rightarrow> world \<Rightarrow> error + (world \<times> json list)" where
  "ensureEnvironmentFiles gen cfg index [] w = Inr (w, [])"
| "ensureEnvironmentFiles gen cfg index (dataFileName # rest) w =
     (case ensureEnvironmentFile gen cfg w (pathJoin (envDirOf cfg) dataFileName) dataFileName index of
        Inl e \<Rightarrow> Inl e
      | Inr (w1, environment) \<Rightarrow>
          (case ensureEnvironmentFiles gen cfg (index + 1) rest w1 of
             Inl e \<Rightarrow> Inl e
           | Inr (w2, descriptors) \<Rightarrow> Inr (w2,
                    newDescriptor (getProp environment (js ''uuid'')) dataFileName # descriptors)))"

definition buildDefaultSettings :: "config \<Rightarrow> json list \<Rightarrow> json" where
  "buildDefaultSettings cfg descriptors =
     objectOf
       [(js ''welcomeShown'', Some (JBool True)),
        (js ''maxLogsPerEnvironment'', Some (JNum (defaultMaxTransactionLogs cfg))),
        (js ''truncateRouteName'', Some (JBool True)),
        (js ''mainMenuSize'', Some (JNum 100)),
        (js ''secondaryMenuSize'', Some (JNum 200)),
        (js ''fakerLocale'', Some (JStr (js ''en''))),
        (js ''fakerSeed'', Some JNull),
        (js ''lastChangelog'', Some (JStr (js ''0.0.0''))),
        (js ''environments'', Some (JArr descriptors)),
        (js ''disabledRoutes'', Some (JObj [])),
        (js ''collapsedFolders'', Some (JObj [])),
        (js ''enableTelemetry'', Some (JBool False)),
        (js ''storagePrettyPrint'', Some (JBool True)),
        (js ''fileWatcherEnabled'', Some (JStr (js ''disabled''))),
        (js ''dialogWorkingDir'', Some (JStr [])),
        (js ''startEnvironmentsOnLoad'', Some (JBool True)),
        (js ''logTransactions'', Some (JBool False)),
        (js ''environmentsCategoriesOrder'', Some (JArr [JStr (js ''local''), JStr (js ''cloud'')])),
        (js ''environmentsCategoriesCollapsed'',
           Some (JObj [(js ''local'', JBool False), (js ''cloud'', JBool False)])),
        (js ''envVarsPrefix'', Some (JStr (defaultEnvironmentVariablesPrefix cfg))),
        (js ''activeEnvironmentUuid'',
           (case descriptors of [] \<Rightarrow> Some JNull | first # _ \<Rightarrow> getProp first (js ''uuid''))),
        (js ''enableRandomLatency'', Some (JBool False)),
        (js ''recentLocalEnvironments'', Some (JArr [])),
        (js ''displayLogsIsoTimestamp'', Some (JBool False)),
        (js ''deployPreferredRegion'', Some JNull)]"

text \<open>
  The loop over the descriptors works on \<open>settings.environments\<close>, and what it
  pushes there are the descriptor objects themselves, so \<open>existing.path = ...\<close> on a
  pushed one also changes the descriptor \<open>ensureInitialState\<close> returns. An entry of
  the array is kept with its value and, when it is one of the descriptor objects, the
  index of that descriptor; an assignment to such an entry is made to the descriptor
  of that index as well.
\<close>

type_synonym entry = "json \<times> nat option"

text \<open>
  \<open>settings.environments.find((item) => item.uuid === descriptor.uuid)\<close>: the first
  entry with the uuid. Reading \<open>item.uuid\<close> throws a \<open>TypeError\<close> on an item that is
  \<open>null\<close>, when the search gets to it.
\<close>

fun findEntry :: "json option \<Rightarrow> entry list \<Rightarrow> error + entry option" where
  "findEntry u [] = Inr None"
| "findEntry u (e # es) =
     (if fst e = JNull then Inl TypeError
      else if strictEqual (getProp (fst e) (js ''uuid'')) u then Inr (Some e)
      else findEntry u es)"

text \<open>The entry that was found gets its new value, where it is.\<close>

fun replaceFound :: "json option \<Rightarrow> json \<Rightarrow> entry list \<Rightarrow> entry list" where
  "replaceFound u updated [] = []"
| "replaceFound u updated (e # es) =
     (if strictEqual (getProp (fst e) (js ''uuid'')) u then (updated, snd e) # es
      else e # replaceFound u updated es)"

fun updateAt :: "nat \<Rightarrow> ('a \<Rightarrow> 'a) \<Rightarrow> 'a list \<Rightarrow> 'a list" where
  "updateAt i f [] = []"
| "updateAt i f (x # xs) = (case i of 0 \<Rightarrow> f x # xs | Suc j \<Rightarrow> x # updateAt j f xs)"

text \<open>
  \<open>existing.path = descriptor.path\<close>. The script runs in strict mode, where the
  assignment throws a \<open>TypeError\<close> on a primitive.
\<close>

definition assignPath :: "json \<Rightarrow> json option \<Rightarrow> error + json" where
  "assignPath existing p =
     (case existing of
        JObj _ \<Rightarrow> Inr (assign existing (js ''path'') p)
      | JArr _ \<Rightarrow> Inr existing
      | _ \<Rightarrow> Inl TypeError)"

text \<open>
  The body of \<open>descriptors.forEach\<close> for the descriptor of index \<open>j\<close>, on the
  entries of \<open>settings.environments\<close>, the descriptors as they are by now, and the
  flag. An item that is found but falsy counts as not found.
\<close>

definition reconcileDescriptor ::
  "nat \<Rightarrow> json \<Rightarrow> entry list \<times> json list \<times> bool \<Rightarrow> error + (entry list \<times> json list \<times> bool)" where
  "reconcileDescriptor j descriptor s =
     (case s of (entries, descs, changed) \<Rightarrow>
        (case findEntry (getProp descriptor (js ''uuid'')) entries of
           Inl e \<Rightarrow> Inl e
         | Inr None \<Rightarrow> Inr (entries @ [(descriptor, Some j)], descs, True)
         | Inr (Some (existing, alias)) \<Rightarrow>
             if falsy existing then Inr (entries @ [(descriptor, Some j)], descs, True)
             else if \<not> strictEqual (getProp existing (js ''path'')) (getProp descriptor (js ''path''))
             then
               (case assignPath existing (getProp descriptor (js ''path'')) of
                  Inl e \<Rightarrow> Inl e
                | Inr updated \<Rightarrow>
                    Inr (replaceFound (getProp descriptor (js ''uuid'')) updated entries,
                         (case alias of
                            None \<Rightarrow> descs
                          | Some i \<Rightarrow>
                              updateAt i (\<lambda>d. assign d (js ''path'') (getProp descriptor (js ''path'')))
                                descs),
                         True))
             else Inr s))"

text \<open>
  \<open>descriptors.forEach\<close>, from index \<open>j\<close> on. A descriptor is only changed after
  its own turn, so the one the loop body gets is the one that was built.
\<close>

fun reconcile ::
  "nat \<Rightarrow> json list \<Rightarrow> entry list \<times> json list \<times> bool \<Rightarrow> error + (entry list \<times> json list \<times> bool)" where
  "reconcile j [] s = Inr s"
| "reconcile j (descriptor # rest) s =
     (case reconcileDescriptor j descriptor s of
        Inl e \<Rightarrow> Inl e
      | Inr s1 \<Rightarrow> reconcile (j + 1) rest s1)"

text \<open>
  \<open>ensureSettingsFile\<close>; the result has the descriptors as the loop leaves them. A
  settings text that is empty, blank or not JSON, and a value that is falsy or not of
  type \<open>'object'\<close>, are replaced by the default settings. Every other value, an
  object or an array, is reconciled: on an array, \<open>environments\<close> and
  \<open>activeEnvironmentUuid\<close> are named properties, which \<open>JSON.stringify\<close> does not
  write.
\<close>

definition ensureSettingsFile :: "config \<Rightarrow> world \<Rightarrow> json list \<Rightarrow> error + (world \<times> json list)" where
  "ensureSettingsFile cfg w descriptors =
     (let writeDefault =
            Inr (writeFile w (settingsPathOf cfg) (JsonText True (buildDefaultSettings cfg descriptors)),
                 descriptors)
      in case files w (settingsPathOf cfg) of
           Inaccessible \<Rightarrow> Inl FsError
         | NoEnt \<Rightarrow> writeDefault
         | Content Unparsable \<Rightarrow> writeDefault
         | Content (JsonText _ settings) \<Rightarrow>
             if falsy settings \<or> \<not> typeofObject settings then writeDefault
             else
               let items0 =
                     (case getProp settings (js ''environments'') of
                        Some (JArr items) \<Rightarrow> items
                      | _ \<Rightarrow> [])
               in case reconcile 0 descriptors (map (\<lambda>item. (item, None)) items0, descriptors, False) of
                    Inl e \<Rightarrow> Inl e
                  | Inr (entries, descs, changed1) \<Rightarrow>
                      let setActive =
                            ((case getProp settings (js ''activeEnvironmentUuid'') of
                                None \<Rightarrow> True
                              | Some active \<Rightarrow> falsy active)
                             \<and> descriptors \<noteq> []);
                          settings1 = assign settings (js ''environments'') (Some (JArr (map fst entries)));
                          settings2 =
                            (if setActive
                             then assign settings1 (js ''activeEnvironmentUuid'')
                                    (case descs of [] \<Rightarrow> None | first # _ \<Rightarrow> getProp first (js ''uuid''))
                             else settings1)
                      in if changed1 \<or> setActive
                         then Inr (writeFile w (settingsPathOf cfg) (JsonText True settings2), descs)
                         else Inr (w, descs))"

record initialState =
  envDir :: jsstring
  dataFiles :: "jsstring list"
  descriptors :: "json list"
  settingsPath :: jsstring

text \<open>
  \<open>ensureInitialState\<close>. The \<open>mkdir\<close> of the environment directory comes first in the
  source; with \<open>recursive: true\<close> it changes nothing when the directory is there, and
  it is not a file write.
\<close>

definition ensureInitialState ::
  "(nat \<Rightarrow> jsstring) \<Rightarrow> config \<Rightarrow> world \<Rightarrow> error + (world \<times> initialState)" where
  "ensureInitialState gen cfg w =
     (let fileNames = parseDataFileNames (DEFAULT_DATA_FILES cfg);
          resolvedDataFiles = resolveDataFiles cfg fileNames
      in case ensureEnvironmentFiles gen cfg 0 fileNames w of
           Inl e \<Rightarrow> Inl e
         | Inr (w1, ds) \<Rightarrow>
             (case ensureSettingsFile cfg w1 ds of
                Inl e \<Rightarrow> Inl e
              | Inr (w2, ds2) \<Rightarrow>
                  Inr (w2,
                       \<lparr>envDir = envDirOf cfg, dataFiles = resolvedDataFiles, descriptors = ds2,
                        settingsPath = settingsPathOf cfg\<rparr>)))"

section \<open>Storage HTTP API\<close>





















section \<open>Client persistence layer\<close>



subsection \<open>Networked backend\<close>
















subsection \<open>Embedded local backend\<close>







subsection \<open>Sequences of operations\<close>




section \<open>Transactions of the embedded database\<close>

text \<open>
  The three database functions of the client open a connection, start one transaction
  with one request, and register handlers. What happens next is up to the database,
  which fires events: the request succeeds and the transaction completes; or the
  request fails, its error event bubbles to the transaction, and the transaction
  aborts; or the request succeeds and the commit fails, so that the transaction
  aborts. Before any of this, the connection may fail to open, or \<open>db.transaction\<close>
  may throw (the object store is not there), which rejects the promise with no
  handler registered.
\<close>

datatype idbEvent =
    RequestSuccess
  | RequestError
  | TransactionComplete
  | TransactionError
  | TransactionAbort

datatype scenario = Succeeds | RequestFails | CommitFails | TransactionThrows | OpenFails

fun eventsOf :: "scenario \<Rightarrow> idbEvent list" where
  "eventsOf Succeeds = [RequestSuccess, TransactionComplete]"
| "eventsOf RequestFails = [RequestError, TransactionError, TransactionAbort]"
| "eventsOf CommitFails = [RequestSuccess, TransactionAbort]"
| "eventsOf TransactionThrows = []"
| "eventsOf OpenFails = []"

datatype idbFunction = ReadIndexedDb | WriteIndexedDb | DeleteIndexedDb

datatype promise = Pending | Resolved | Rejected

text \<open>
  The connection (was it opened, was \<open>db.close()\<close> called) and the promise the
  function returns.
\<close>

record idbCall =
  opened :: bool
  closed :: bool
  settled :: promise

definition resolve :: "idbCall \<Rightarrow> idbCall" where
  "resolve c = (if settled c = Pending then c\<lparr>settled := Resolved\<rparr> else c)"

definition reject :: "idbCall \<Rightarrow> idbCall" where
  "reject c = (if settled c = Pending then c\<lparr>settled := Rejected\<rparr> else c)"

text \<open>
  The handlers each function registers: \<open>onsuccess\<close> and \<open>onerror\<close> of the request
  and \<open>oncomplete\<close> of the transaction in all three, \<open>onerror\<close> of the transaction in
  the write only, and none for the abort.
\<close>

fun onEvent :: "idbFunction \<Rightarrow> idbEvent \<Rightarrow> idbCall \<Rightarrow> idbCall" where
  "onEvent f RequestSuccess c = resolve c"
| "onEvent f RequestError c = reject c"
| "onEvent f TransactionComplete c = c\<lparr>closed := True\<rparr>"
| "onEvent f TransactionError c = (if f = WriteIndexedDb then reject c else c)"
| "onEvent f TransactionAbort c = c"

definition callIndexedDb :: "idbFunction \<Rightarrow> scenario \<Rightarrow> idbCall" where
  "callIndexedDb f sc =
     (if sc = OpenFails then \<lparr>opened = False, closed = False, settled = Rejected\<rparr>
      else if sc = TransactionThrows then \<lparr>opened = True, closed = False, settled = Rejected\<rparr>
      else fold (onEvent f) (eventsOf sc) \<lparr>opened = True, closed = False, settled = Pending\<rparr>)"

definition leftOpen :: "idbCall \<Rightarrow> bool" where
  "leftOpen c \<longleftrightarrow> opened c \<and> \<not> closed c"

section \<open>Process supervisor\<close>

text \<open>
  What can happen to the combined process once it runs: a termination signal arrives,
  the child exits (with its code or the signal that killed it), an exception is not
  caught, a rejection is not handled, or the listener has closed and calls the
  callbacks of \<open>server.close\<close>. The runtime runs one handler at a time, to its end,
  so triggers that race each other reach the process as a sequence of events, in
  some order.
\<close>

datatype event =
    TerminationSignal
  | ChildExit "int option" "jsstring option"
  | UncaughtException
  | UnhandledRejection
  | ListenerClosed

text \<open>
  The state: the flag of the guard; how often \<open>server.close\<close> was called and the exit
  codes its waiting callbacks hold; how often \<open>cliProcess.kill\<close> was called, whether
  the child has exited and whether \<open>cliProcess.killed\<close> is set; the codes
  \<open>process.exit\<close> was called with.
\<close>

record supervisor =
  shuttingDown :: bool
  closeCalls :: nat
  closeCallbacks :: "int list"
  killCalls :: nat
  childExited :: bool
  killed :: bool
  exitCalls :: "int list"

text \<open>\<open>if (signal)\<close>: the name of a signal is truthy, \<open>null\<close> is not.\<close>

definition truthy :: "jsstring option \<Rightarrow> bool" where
  "truthy v = (case v of None \<Rightarrow> False | Some s \<Rightarrow> s \<noteq> [])"

definition running :: supervisor where
  "running =
     \<lparr>shuttingDown = False, closeCalls = 0, closeCallbacks = [], killCalls = 0,
      childExited = False, killed = False, exitCalls = []\<rparr>"

text \<open>
  \<open>shutdown\<close>. \<open>kill\<close> sets \<open>killed\<close> when the signal is delivered, that is when the
  child is still there.
\<close>

definition shutdown :: "int \<Rightarrow> supervisor \<Rightarrow> supervisor" where
  "shutdown exitCode s =
     (if shuttingDown s then s
      else
        let s1 = s\<lparr>shuttingDown := True,
                   closeCalls := closeCalls s + 1,
                   closeCallbacks := closeCallbacks s @ [exitCode]\<rparr>
        in if \<not> killed s1
           then s1\<lparr>killCalls := killCalls s1 + 1, killed := \<not> childExited s1\<rparr>
           else s1)"

text \<open>
  One event. After \<open>process.exit\<close> the process is gone and nothing more happens.
  \<open>process.exit\<close> in the first waiting callback ends the process before another
  callback could run.
\<close>

definition step :: "event \<Rightarrow> supervisor \<Rightarrow> supervisor" where
  "step ev s =
     (if exitCalls s \<noteq> [] then s
      else
        (case ev of
           TerminationSignal \<Rightarrow> shutdown 0 s
         | ChildExit code signal \<Rightarrow>
             let s1 = s\<lparr>childExited := True\<rparr>
             in if shuttingDown s1 then s1
                else if truthy signal then shutdown 0 s1
                else shutdown (case code of None \<Rightarrow> 0 | Some c \<Rightarrow> c) s1
         | UncaughtException \<Rightarrow> shutdown 1 s
         | UnhandledRejection \<Rightarrow> shutdown 1 s
         | ListenerClosed \<Rightarrow>
             (case closeCallbacks s of
                [] \<Rightarrow> s
              | exitCode # _ \<Rightarrow> s\<lparr>closeCallbacks := [], exitCalls := exitCalls s @ [exitCode]\<rparr>)))"

definition supervise :: "event list \<Rightarrow> supervisor" where
  "supervise events = fold step events running"

text \<open>
  The exit code policy in the words of the specification, for comparison with the
  code: 0 when a termination signal caused the shutdown, otherwise the exit code of
  the child, or 0 when it has none.
\<close>

definition specifiedExitCode :: "event \<Rightarrow> int option \<Rightarrow> int" where
  "specifiedExitCode trigger childCode =
     (if trigger = TerminationSignal then 0
      else (case childCode of None \<Rightarrow> 0 | Some c \<Rightarrow> c))"

section \<open>Fallback SHA-1\<close>























section \<open>Predicates of the specification and invariants\<close>




text \<open>
  The invariant of the guard: \<open>server.close\<close> has been called once when the flag is
  set and never before, the child was signalled at most as often, and every callback
  handed to \<open>server.close\<close> is either still waiting or has called \<open>process.exit\<close>.
\<close>

definition guarded :: "supervisor \<Rightarrow> bool" where
  "guarded s \<longleftrightarrow>
     closeCalls s = (if shuttingDown s then 1 else 0)
     \<and> killCalls s \<le> closeCalls s
     \<and> length (closeCallbacks s) + length (exitCalls s) = closeCalls s"

text \<open>
  Once the shutdown body has run with exit code \<open>c\<close>, that code is the one the
  waiting callback holds, or the one the process has exited with.
\<close>

definition committed :: "int \<Rightarrow> supervisor \<Rightarrow> bool" where
  "committed c s \<longleftrightarrow>
     shuttingDown s
     \<and> (closeCallbacks s = [c] \<and> exitCalls s = [] \<or> closeCallbacks s = [] \<and> exitCalls s = [c])"

text \<open>
  The file writes of a second bootstrap run on what a completed first run left: the
  paths \<open>fsp.writeFile\<close> is called with in the second run (\<open>None\<close> when one of the
  two runs fails).
\<close>

definition secondRunWrites :: "(nat \<Rightarrow> jsstring) \<Rightarrow> config \<Rightarrow> world \<Rightarrow> jsstring list option" where
  "secondRunWrites gen cfg w =
     (case ensureInitialState gen cfg w of
        Inl e \<Rightarrow> None
      | Inr (w1, s1) \<Rightarrow>
          (case ensureInitialState gen cfg w1 of
             Inl e \<Rightarrow> None
           | Inr (w2, s2) \<Rightarrow> Some (drop (length (writes w1)) (writes w2))))"

text \<open>
  The \<open>uuid\<close> of the document a file holds (\<open>None\<close> when the file holds no document
  or the document has none), and the path of a configured file.
\<close>

definition uuidAt :: "world \<Rightarrow> jsstring \<Rightarrow> json option" where
  "uuidAt w filePath =
     (case files w filePath of
        Content (JsonText _ v) \<Rightarrow> getProp v (js ''uuid'')
      | _ \<Rightarrow> None)"

definition dataFilePath :: "config \<Rightarrow> jsstring \<Rightarrow> jsstring" where
  "dataFilePath cfg dataFileName = pathJoin (envDirOf cfg) dataFileName"

text \<open>
  The data directory is keyed as the data model has it: every configured file holds
  a document whose uuid is a non-empty string, no two configured files with
  different names hold documents with the same uuid, and the settings file does not
  hold a JSON array.
\<close>

definition stringUuids :: "config \<Rightarrow> world \<Rightarrow> bool" where
  "stringUuids cfg w =
     list_all
       (\<lambda>name. case uuidAt w (dataFilePath cfg name) of Some (JStr s) \<Rightarrow> s \<noteq> [] | _ \<Rightarrow> False)
       (parseDataFileNames (DEFAULT_DATA_FILES cfg))"

definition onePathPerUuid :: "config \<Rightarrow> world \<Rightarrow> bool" where
  "onePathPerUuid cfg w \<longleftrightarrow>
     (\<forall>name \<in> set (parseDataFileNames (DEFAULT_DATA_FILES cfg)).
      \<forall>name' \<in> set (parseDataFileNames (DEFAULT_DATA_FILES cfg)).
        uuidAt w (dataFilePath cfg name) = uuidAt w (dataFilePath cfg name') \<longrightarrow> name = name')"

definition settingsArray :: "config \<Rightarrow> world \<Rightarrow> bool" where
  "settingsArray cfg w =
     (case files w (settingsPathOf cfg) of
        Content (JsonText _ (JArr _)) \<Rightarrow> True
      | _ \<Rightarrow> False)"

text \<open>
  A settings file that is there, parses to a value that is not an array, and holds
  no descriptor: a primitive or \<open>null\<close>, or an object whose \<open>environments\<close> is
  missing, not an array, or empty.
\<close>

definition noPriorDescriptors :: "filetext node \<Rightarrow> bool" where
  "noPriorDescriptors n =
     (case n of
        Content (JsonText _ v) \<Rightarrow>
          (case v of
             JArr _ \<Rightarrow> False
           | JObj _ \<Rightarrow> (case getProp v (js ''environments'') of
                         Some (JArr items) \<Rightarrow> items = []
                       | _ \<Rightarrow> True)
           | _ \<Rightarrow> True)
      | _ \<Rightarrow> False)"

text \<open>The descriptors in the settings file after a bootstrap run (\<open>None\<close> without them).\<close>

definition reconciledDescriptors :: "(nat \<Rightarrow> jsstring) \<Rightarrow> config \<Rightarrow> world \<Rightarrow> json list option" where
  "reconciledDescriptors gen cfg w =
     (case ensureInitialState gen cfg w of
        Inl e \<Rightarrow> None
      | Inr (w1, s1) \<Rightarrow>
          (case files w1 (settingsPathOf cfg) of
             Content (JsonText _ v) \<Rightarrow>
               (case getProp v (js ''environments'') of
                  Some (JArr items) \<Rightarrow> Some items
                | _ \<Rightarrow> None)
           | _ \<Rightarrow> None))"

text \<open>
  Concrete inputs: a configuration with two data files, one with the same file
  twice, one with a single file, a generator of identifiers, an empty data
  directory, a data directory where \<open>b.json\<close> is a copy of \<open>a.json\<close>, one where the
  uuid of the document in \<open>a.json\<close> is an object, a settings document without
  descriptors, and a data directory with a given settings document.
\<close>

definition twoFiles :: config where
  "twoFiles =
     \<lparr>DATA_DIR = js ''/data'', ENV_SUBDIR = js ''environments'',
      DEFAULT_DATA_FILES = js ''a.json,b.json'', DEFAULT_PORT = 3000,
      DEFAULT_ENV_NAME = js ''Docker environment'', MOCKOON_ENV_NAMES = None,
      CLI_WATCH = True, CLI_DISABLE_LOG_TO_FILE = True, CLI_POLLING_INTERVAL = None,
      CLI_EXTRA_ARGS = [], defaultMaxTransactionLogs = 50,
      defaultEnvironmentVariablesPrefix = js ''MOCKOON_''\<rparr>"

definition sameFileTwice :: config where
  "sameFileTwice = twoFiles\<lparr>DEFAULT_DATA_FILES := js ''a.json,a.json''\<rparr>"

definition oneFile :: config where
  "oneFile = twoFiles\<lparr>DEFAULT_DATA_FILES := js ''a.json''\<rparr>"

definition numbered :: "nat \<Rightarrow> jsstring" where
  "numbered k = js ''uuid-'' @ toString10 k"

definition emptyWorld :: world where
  "emptyWorld = \<lparr>files = (\<lambda>_. NoEnt), writes = [], built = 0\<rparr>"

definition copiedDocument :: json where
  "copiedDocument =
     JObj [(js ''uuid'', JStr (js ''u1'')), (js ''name'', JStr (js ''Copied'')),
           (js ''port'', JNum 3000)]"

definition copiedWorld :: world where
  "copiedWorld =
     emptyWorld\<lparr>files :=
       (\<lambda>_. NoEnt)(js ''/data/environments/a.json'' := Content (JsonText True copiedDocument),
                    js ''/data/environments/b.json'' := Content (JsonText True copiedDocument))\<rparr>"

definition objectKeyedWorld :: world where
  "objectKeyedWorld =
     emptyWorld\<lparr>files :=
       (\<lambda>_. NoEnt)(js ''/data/environments/a.json'' :=
                      Content (JsonText True (JObj [(js ''uuid'', JObj [])])))\<rparr>"

definition bareSettings :: json where
  "bareSettings = JObj [(js ''fakerLocale'', JStr (js ''en'')), (js ''environments'', JArr [])]"

definition withSettings :: "world \<Rightarrow> json \<Rightarrow> world" where
  "withSettings w v = w\<lparr>files := (files w)(js ''/data/settings.json'' := Content (JsonText True v))\<rparr>"

text \<open>A descriptor as \<open>JSON.stringify\<close> writes it.\<close>

definition descriptorOf :: "json \<Rightarrow> jsstring \<Rightarrow> json" where
  "descriptorOf u p =
     JObj [(js ''uuid'', u), (js ''path'', JStr p), (js ''cloud'', JBool False),
           (js ''lastServerHash'', JNull)]"

text \<open>
  Every descriptor of the list is found in the entries, by its uuid, with its path:
  what \<open>ensureSettingsFile\<close> leaves in the settings for the descriptors it was
  given.
\<close>

definition listed :: "entry list \<Rightarrow> json list \<Rightarrow> bool" where
  "listed entries ds \<longleftrightarrow>
     (\<forall>d \<in> set ds.
        \<exists>existing alias.
          findEntry (getProp d (js ''uuid'')) entries = Inr (Some (existing, alias))
          \<and> strictEqual (getProp existing (js ''path'')) (getProp d (js ''path'')))"

text \<open>
  Descriptors whose uuid is a truthy primitive, and among which no two with the same
  uuid differ in their path.
\<close>

definition keyed :: "json \<Rightarrow> bool" where
  "keyed d \<longleftrightarrow> (\<exists>u p. primitive u \<and> \<not> falsy u \<and> d = descriptorOf u p)"

definition onePath :: "json list \<Rightarrow> bool" where
  "onePath ds \<longleftrightarrow>
     (\<forall>d \<in> set ds. \<forall>d' \<in> set ds.
        getProp d (js ''uuid'') = getProp d' (js ''uuid'')
        \<longrightarrow> getProp d (js ''path'') = getProp d' (js ''path''))"
















section \<open>The sanitizer confines every key\<close>

lemma str_split_not_Nil: "str_split sep s \<noteq> []"
  by (induction s) (auto split: list.splits)

lemma str_split_pieces:
  "piece \<in> set (str_split sep s) \<Longrightarrow> sep \<notin> set piece \<and> set piece \<subseteq> set s"
proof (induction s arbitrary: piece)
  case Nil
  then show ?case by simp
next
  case (Cons c cs)
  show ?case
  proof (cases "c = sep")
    case True
    with Cons show ?thesis by auto
  next
    case False
    obtain p ps where ps: "str_split sep cs = p # ps"
      using str_split_not_Nil [of sep cs] by (cases "str_split sep cs") auto
    from Cons.prems False ps have "piece = c # p \<or> piece \<in> set ps" by auto
    then show ?thesis
    proof
      assume "piece = c # p"
      moreover have "sep \<notin> set p \<and> set p \<subseteq> set cs" using Cons.IH [of p] ps by simp
      ultimately show ?thesis using False by auto
    next
      assume "piece \<in> set ps"
      then have "sep \<notin> set piece \<and> set piece \<subseteq> set cs" using Cons.IH [of piece] ps by simp
      then show ?thesis by auto
    qed
  qed
qed

lemma pop_Some_in_set: "pop xs = Some x \<Longrightarrow> x \<in> set xs"
  by (induction xs rule: pop.induct) auto

lemma pop_None_iff: "pop xs = None \<longleftrightarrow> xs = []"
  by (induction xs rule: pop.induct) auto

lemma backslash_normalizeSeparators: "backslash \<notin> set (normalizeSeparators v)"
  by (auto simp: normalizeSeparators_def slash_def backslash_def)

lemma sanitizeStorageKey_confined:
  "slash \<notin> set (sanitizeStorageKey v) \<and> backslash \<notin> set (sanitizeStorageKey v)"
proof (cases "pop (str_split slash (normalizeSeparators v))")
  case None
  then show ?thesis by (simp add: sanitizeStorageKey_def)
next
  case (Some seg)
  then have "seg \<in> set (str_split slash (normalizeSeparators v))" by (rule pop_Some_in_set)
  then have "slash \<notin> set seg" and "set seg \<subseteq> set (normalizeSeparators v)"
    using str_split_pieces by blast+
  then have "slash \<notin> set seg \<and> backslash \<notin> set seg"
    using backslash_normalizeSeparators [of v] by auto
  with Some show ?thesis by (auto simp: sanitizeStorageKey_def Let_def)
qed

lemma toLowerCase_append: "toLowerCase (xs @ ys) = toLowerCase xs @ toLowerCase ys"
  by (simp add: toLowerCase_def)

lemma endsWith_append: "endsWith (xs @ suffix) suffix"
  by (simp add: endsWith_def)

lemma toLowerCase_json: "toLowerCase (js ''.json'') = js ''.json''"
  by (simp add: toLowerCase_def js_def)

lemma ensureJsonExtension_endsWith:
  "endsWith (toLowerCase (ensureJsonExtension v)) (js ''.json'')"
proof -
  have "endsWith (toLowerCase (js ''environment.json'')) (js ''.json'')"
    by (simp add: endsWith_def toLowerCase_def js_def)
  moreover have "endsWith (toLowerCase (s @ js ''.json'')) (js ''.json'')" for s
    by (simp add: toLowerCase_append toLowerCase_json endsWith_append)
  ultimately show ?thesis by (simp add: ensureJsonExtension_def Let_def)
qed

lemma ensureJsonExtension_confined:
  "slash \<notin> set (ensureJsonExtension v) \<and> backslash \<notin> set (ensureJsonExtension v)"
proof -
  have "slash \<notin> set (js ''environment.json'') \<and> backslash \<notin> set (js ''environment.json'')"
    by (simp add: js_def slash_def backslash_def)
  moreover have "slash \<notin> set (js ''.json'') \<and> backslash \<notin> set (js ''.json'')"
    by (simp add: js_def slash_def backslash_def)
  ultimately show ?thesis
    using sanitizeStorageKey_confined [of v] by (auto simp: ensureJsonExtension_def Let_def)
qed

lemma ensureJsonExtension_not_Nil: "ensureJsonExtension v \<noteq> []"
  by (simp add: ensureJsonExtension_def Let_def js_def)

lemma parseDataFileNames_eq:
  "parseDataFileNames v = map (\<lambda>item. ensureJsonExtension (trim item)) (str_split comma v)"
  unfolding parseDataFileNames_def
  by (rule filter_True) (auto simp: ensureJsonExtension_not_Nil)

lemma parseDataFileNames_not_Nil: "parseDataFileNames v \<noteq> []"
  by (simp add: parseDataFileNames_eq str_split_not_Nil)

text \<open>
  Claim C1. For every input string, \<open>ensureJsonExtension\<close> (which runs
  \<open>sanitizeStorageKey\<close> first) gives a name with no \<open>/\<close> and no backslash in it
  that ends in \<open>.json\<close> when lower-cased; the empty input gives \<open>environment.json\<close>.
\<close>

theorem key_confinement:
  "slash \<notin> set (ensureJsonExtension v) \<and> backslash \<notin> set (ensureJsonExtension v)
   \<and> endsWith (toLowerCase (ensureJsonExtension v)) (js ''.json'')
   \<and> ensureJsonExtension [] = js ''environment.json''"
proof -
  have "ensureJsonExtension [] = js ''environment.json''"
    by (simp add: ensureJsonExtension_def sanitizeStorageKey_def)
  then show ?thesis
    using ensureJsonExtension_confined [of v] ensureJsonExtension_endsWith [of v] by simp
qed

section \<open>The configured data files\<close>

text \<open>
  Claim C10, as stated, asks every name \<open>parseDataFileNames\<close> returns to end in
  \<open>.json\<close>. A configured name that carries the extension in capitals is kept as it
  is: \<open>X.JSON\<close> comes back unchanged, and it does not end in \<open>.json\<close>.
\<close>

theorem data_file_names_counterexample:
  "parseDataFileNames (js ''X.JSON'') = [js ''X.JSON'']
   \<and> \<not> endsWith (js ''X.JSON'') (js ''.json'')"
  by (simp add: parseDataFileNames_def ensureJsonExtension_def sanitizeStorageKey_def
      normalizeSeparators_def trim_def isWhiteSpace_def isKeyChar_def toLowerCase_def
      endsWith_def js_def slash_def backslash_def comma_def)

text \<open>
  Claim C10, amended. For every value of the configured string, \<open>parseDataFileNames\<close>
  returns a non-empty list of non-empty names, each ending in \<open>.json\<close> when
  lower-cased; so \<open>buildDefaultCliArgs\<close> never takes its \<open>No data files configured\<close>
  branch, neither on the resolved files the bootstrap hands over in combined mode nor
  when it resolves them itself.
\<close>

theorem data_file_names_never_empty:
  "parseDataFileNames v \<noteq> []
   \<and> list_all (\<lambda>name. name \<noteq> [] \<and> endsWith (toLowerCase name) (js ''.json''))
        (parseDataFileNames v)
   \<and> buildDefaultCliArgs cfg (Some (resolveDataFiles cfg (parseDataFileNames (DEFAULT_DATA_FILES cfg))))
       \<noteq> Inl NoDataFiles
   \<and> buildDefaultCliArgs cfg None \<noteq> Inl NoDataFiles"
proof -
  have "list_all (\<lambda>name. name \<noteq> [] \<and> endsWith (toLowerCase name) (js ''.json''))
          (parseDataFileNames v)"
    by (simp add: parseDataFileNames_eq list_all_iff ensureJsonExtension_not_Nil
        ensureJsonExtension_endsWith)
  moreover have "resolveDataFiles cfg (parseDataFileNames (DEFAULT_DATA_FILES cfg)) \<noteq> []"
    by (simp add: resolveDataFiles_def parseDataFileNames_not_Nil)
  ultimately show ?thesis
    by (simp add: parseDataFileNames_not_Nil buildDefaultCliArgs_def Let_def)
qed

section \<open>Supervisor: the guard and the exit code\<close>

lemma guarded_running: "guarded running"
  by (simp add: guarded_def running_def)

lemma guarded_shutdown: "guarded s \<Longrightarrow> exitCalls s = [] \<Longrightarrow> guarded (shutdown c s)"
  by (auto simp: guarded_def shutdown_def Let_def split: if_splits)

lemma guarded_step: "guarded s \<Longrightarrow> guarded (step ev s)"
proof (cases "exitCalls s = []")
  case False
  assume "guarded s"
  with False show ?thesis by (simp add: step_def)
next
  case True
  assume g: "guarded s"
  show ?thesis
  proof (cases ev)
    case TerminationSignal
    with g True show ?thesis by (simp add: step_def guarded_shutdown)
  next
    case (ChildExit code signal)
    have g1: "guarded (s\<lparr>childExited := True\<rparr>)" using g by (simp add: guarded_def)
    have e1: "exitCalls (s\<lparr>childExited := True\<rparr>) = []" using True by simp
    show ?thesis
      using ChildExit True g1 guarded_shutdown [OF g1 e1]
      by (simp add: step_def Let_def)
  next
    case UncaughtException
    with g True show ?thesis by (simp add: step_def guarded_shutdown)
  next
    case UnhandledRejection
    with g True show ?thesis by (simp add: step_def guarded_shutdown)
  next
    case ListenerClosed
    with g True show ?thesis
      by (cases "closeCallbacks s") (auto simp: step_def guarded_def split: if_splits)
  qed
qed

lemma guarded_fold: "guarded s \<Longrightarrow> guarded (fold step events s)"
  by (induction events arbitrary: s) (auto simp: guarded_step)

lemma guarded_supervise: "guarded (supervise events)"
  by (simp add: supervise_def guarded_fold guarded_running)

lemma committed_shutdown: "shutdown c running = s \<Longrightarrow> committed c s"
  by (auto simp: committed_def shutdown_def running_def Let_def)

lemma committed_step: "committed c s \<Longrightarrow> committed c (step ev s)"
  by (cases ev) (auto simp: committed_def step_def shutdown_def Let_def split: list.splits)

lemma committed_fold: "committed c s \<Longrightarrow> committed c (fold step events s)"
  by (induction events arbitrary: s) (auto simp: committed_step)

lemma committed_closed: "committed c s \<Longrightarrow> exitCalls (step ListenerClosed s) = [c]"
  by (auto simp: committed_def step_def)

lemma exit_after_close:
  assumes "committed c (step trigger running)"
  shows "exitCalls (supervise (trigger # rest @ [ListenerClosed])) = [c]"
proof -
  have "committed c (fold step rest (step trigger running))"
    using assms by (rule committed_fold)
  then show ?thesis by (simp add: supervise_def committed_closed)
qed

lemma committed_first:
  "committed 0 (step TerminationSignal running)"
  "committed (if truthy signal then 0 else (case code of None \<Rightarrow> 0 | Some c \<Rightarrow> c))
     (step (ChildExit code signal) running)"
  "committed 1 (step UncaughtException running)"
  "committed 1 (step UnhandledRejection running)"
  by (auto simp: committed_def step_def shutdown_def running_def Let_def split: option.splits)

text \<open>
  Claim C6, as stated, has every trigger other than a termination signal end the
  process with the exit code of the child, or 0 when the child has none. An uncaught
  exception while the child runs (so that it has no exit code) ends the process
  with 1.
\<close>

theorem exit_code_counterexample:
  "exitCalls (supervise [UncaughtException, ListenerClosed]) = [1]
   \<and> specifiedExitCode UncaughtException None = 0"
  by (simp add: supervise_def step_def shutdown_def running_def specifiedExitCode_def)

text \<open>
  Claim C6, amended. Whatever other events follow the first trigger, once the
  listener has closed the process has exited exactly once, with 0 when the trigger
  was a termination signal, with 0 when the child was killed by a signal, with the
  exit code of the child (0 when it has none) when the child exited on its own, and
  with 1 when the trigger was an uncaught exception or an unhandled rejection.
\<close>

theorem exit_code_policy:
  "exitCalls (supervise (TerminationSignal # rest @ [ListenerClosed])) = [0]
   \<and> exitCalls (supervise (ChildExit code signal # rest @ [ListenerClosed]))
       = [if truthy signal then 0 else (case code of None \<Rightarrow> 0 | Some c \<Rightarrow> c)]
   \<and> exitCalls (supervise (UncaughtException # rest @ [ListenerClosed])) = [1]
   \<and> exitCalls (supervise (UnhandledRejection # rest @ [ListenerClosed])) = [1]"
  using committed_first [THEN exit_after_close] by blast

text \<open>
  Claim C7. For every sequence of events, \<open>server.close\<close> is called at most once, the
  child is signalled at most once and \<open>process.exit\<close> is called at most once; two
  termination signals in a row make one call of \<open>server.close\<close> and, when the
  listener has closed, one call of \<open>process.exit\<close>.
\<close>

theorem shutdown_at_most_once:
  "closeCalls (supervise events) \<le> 1
   \<and> killCalls (supervise events) \<le> 1
   \<and> length (exitCalls (supervise events)) \<le> 1
   \<and> closeCalls (supervise [TerminationSignal, TerminationSignal]) = 1
   \<and> killCalls (supervise [TerminationSignal, TerminationSignal]) = 1
   \<and> exitCalls (supervise [TerminationSignal, TerminationSignal, ListenerClosed]) = [0]"
proof -
  have "guarded (supervise events)" by (rule guarded_supervise)
  then have "closeCalls (supervise events) \<le> 1 \<and> killCalls (supervise events) \<le> 1
      \<and> length (exitCalls (supervise events)) \<le> 1"
    by (auto simp: guarded_def split: if_splits)
  moreover have "closeCalls (supervise [TerminationSignal, TerminationSignal]) = 1
      \<and> killCalls (supervise [TerminationSignal, TerminationSignal]) = 1
      \<and> exitCalls (supervise [TerminationSignal, TerminationSignal, ListenerClosed]) = [0]"
    by (simp add: supervise_def step_def shutdown_def running_def)
  ultimately show ?thesis by simp
qed

section \<open>Embedded database: the connection after a failure\<close>

lemma succeeds_closes: "closed (callIndexedDb f Succeeds) \<and> settled (callIndexedDb f Succeeds) = Resolved"
  by (simp add: callIndexedDb_def resolve_def)

text \<open>
  Claim C5 asks every database function to close its connection on every path. When
  the request fails, or when the commit fails, the transaction aborts and never
  completes: the promise is rejected (or already resolved) and \<open>db.close()\<close> is not
  called, in the delete, in the write and in the read. Nor is it called when
  \<open>db.transaction\<close> throws.
\<close>

theorem connection_left_open_on_failure:
  "leftOpen (callIndexedDb DeleteIndexedDb RequestFails)
   \<and> settled (callIndexedDb DeleteIndexedDb RequestFails) = Rejected
   \<and> leftOpen (callIndexedDb WriteIndexedDb RequestFails)
   \<and> settled (callIndexedDb WriteIndexedDb RequestFails) = Rejected
   \<and> leftOpen (callIndexedDb ReadIndexedDb RequestFails)
   \<and> leftOpen (callIndexedDb DeleteIndexedDb CommitFails)
   \<and> leftOpen (callIndexedDb WriteIndexedDb CommitFails)
   \<and> leftOpen (callIndexedDb ReadIndexedDb CommitFails)
   \<and> leftOpen (callIndexedDb DeleteIndexedDb TransactionThrows)
   \<and> leftOpen (callIndexedDb WriteIndexedDb TransactionThrows)
   \<and> leftOpen (callIndexedDb ReadIndexedDb TransactionThrows)"
  by (simp add: callIndexedDb_def leftOpen_def resolve_def reject_def)

section \<open>Replace environment by id\<close>








section \<open>The fallback SHA-1 on the reference inputs\<close>



















section \<open>Properties of objects\<close>

lemma map_of_setMember:
  "map_of (setMember key x ms) k = (if k = key then Some x else map_of ms k)"
  by (induction ms) auto

lemma map_of_filter_key:
  "map_of (filter (\<lambda>member. fst member \<noteq> key) ms) k = (if k = key then None else map_of ms k)"
  by (induction ms) auto

lemma getProp_assign_other: "k \<noteq> key \<Longrightarrow> getProp (assign v key x) k = getProp v k"
  by (cases v; cases x) (simp_all add: getProp_def assign_def map_of_setMember map_of_filter_key)

lemma getProp_assign_same: "getProp (assign (JObj ms) key (Some x)) key = Some x"
  by (simp add: getProp_def assign_def map_of_setMember)

lemma assign_object: "\<exists>ms'. assign (JObj ms) key x = JObj ms'"
  by (cases x) (simp_all add: assign_def)

lemma getProp_Some_object: "getProp v key = Some x \<Longrightarrow> \<exists>ms. v = JObj ms"
  by (cases v) (simp_all add: getProp_def)

lemma strictEqual_primitive: "primitive u \<Longrightarrow> strictEqual a (Some u) \<longleftrightarrow> a = Some u"
  by (cases a) (auto simp: strictEqual_def)

lemma strictEqual_string: "strictEqual a (Some (JStr s)) \<longleftrightarrow> a = Some (JStr s)"
  by (simp add: strictEqual_primitive primitive_def)

lemma strictEqual_imp_eq: "strictEqual a b \<Longrightarrow> a = b"
  by (auto simp: strictEqual_def split: option.splits)

lemma key_distinct:
  "js ''path'' \<noteq> js ''uuid''" "js ''uuid'' \<noteq> js ''path''"
  "js ''uuid'' \<noteq> js ''environments''" "js ''uuid'' \<noteq> js ''activeEnvironmentUuid''"
  "js ''environments'' \<noteq> js ''activeEnvironmentUuid''"
  "js ''activeEnvironmentUuid'' \<noteq> js ''environments''"
  by (simp_all add: js_def)

lemma descriptorOf_props:
  "getProp (descriptorOf u p) (js ''uuid'') = Some u"
  "getProp (descriptorOf u p) (js ''path'') = Some (JStr p)"
  "descriptorOf u p \<noteq> JNull"
  "\<not> falsy (descriptorOf u p)"
  by (simp_all add: descriptorOf_def getProp_def falsy_def js_def)

lemma newDescriptor_Some: "newDescriptor (Some u) name = descriptorOf u name"
  by (simp add: newDescriptor_def descriptorOf_def objectOf_def)

lemma newDescriptor_props:
  "getProp (newDescriptor u name) (js ''uuid'') = u"
  "getProp (newDescriptor u name) (js ''path'') = Some (JStr name)"
  "newDescriptor u name \<noteq> JNull"
  "\<not> falsy (newDescriptor u name)"
  by (cases u; simp add: newDescriptor_def objectOf_def getProp_def falsy_def js_def)+

section \<open>Bootstrap: the environment files\<close>

lemma ensureEnvironmentFile_result:
  assumes "ensureEnvironmentFile gen cfg w p n i = Inr (w1, e)"
  shows "\<exists>b. files w1 p = Content (JsonText b e)"
    and "files w q = Content c \<Longrightarrow> files w1 q = Content c"
    and "getProp e (js ''uuid'') \<noteq> None"
  using assms
  by (auto simp: ensureEnvironmentFile_def BuildEnvironment_def writeFile_def Let_def getProp_def
      split: node.splits filetext.splits if_splits option.splits)

lemma ensureEnvironmentFiles_preserves:
  "ensureEnvironmentFiles gen cfg i names w = Inr (w', ds)
   \<Longrightarrow> files w q = Content c \<Longrightarrow> files w' q = Content c"
proof (induction names arbitrary: i w w' ds)
  case Nil
  then show ?case by simp
next
  case (Cons name rest)
  from Cons.prems(1) obtain w1 e ds' where
    head: "ensureEnvironmentFile gen cfg w (pathJoin (envDirOf cfg) name) name i = Inr (w1, e)"
    and tail: "ensureEnvironmentFiles gen cfg (i + 1) rest w1 = Inr (w', ds')"
    by (auto split: sum.splits prod.splits)
  show ?case
    using ensureEnvironmentFile_result(2) [OF head Cons.prems(2)] Cons.IH [OF tail] by simp
qed

text \<open>
  The descriptors follow the file names: the descriptor of a file has its name as
  path and the uuid of the document the file holds when the loop is over.
\<close>

lemma ensureEnvironmentFiles_descriptors:
  "ensureEnvironmentFiles gen cfg i names w = Inr (w', ds)
   \<Longrightarrow> ds = map (\<lambda>name. newDescriptor (uuidAt w' (dataFilePath cfg name)) name) names
       \<and> (\<forall>name \<in> set names. uuidAt w' (dataFilePath cfg name) \<noteq> None)"
proof (induction names arbitrary: i w ds)
  case Nil
  then show ?case by simp
next
  case (Cons name rest)
  from Cons.prems(1) obtain w1 e ds' where
    head: "ensureEnvironmentFile gen cfg w (pathJoin (envDirOf cfg) name) name i = Inr (w1, e)"
    and tail: "ensureEnvironmentFiles gen cfg (i + 1) rest w1 = Inr (w', ds')"
    and ds: "ds = newDescriptor (getProp e (js ''uuid'')) name # ds'"
    by (auto split: sum.splits prod.splits)
  from ensureEnvironmentFile_result(1) [OF head] obtain b where
    "files w1 (pathJoin (envDirOf cfg) name) = Content (JsonText b e)" by blast
  then have "files w' (pathJoin (envDirOf cfg) name) = Content (JsonText b e)"
    using ensureEnvironmentFiles_preserves [OF tail] by blast
  then have "uuidAt w' (dataFilePath cfg name) = getProp e (js ''uuid'')"
    by (simp add: uuidAt_def dataFilePath_def)
  then show ?case
    using ds Cons.IH [OF tail] ensureEnvironmentFile_result(3) [OF head] by simp
qed

text \<open>
  On a data directory where every configured file holds a document with a truthy
  primitive as uuid, the loop writes nothing and gives the descriptors of these
  documents.
\<close>

lemma ensureEnvironmentFiles_on_documents:
  "list_all (\<lambda>name. case uuidAt w (dataFilePath cfg name) of
                       Some u \<Rightarrow> primitive u \<and> \<not> falsy u
                     | None \<Rightarrow> False)
     names
   \<Longrightarrow> ensureEnvironmentFiles gen cfg i names w
       = Inr (w, map (\<lambda>name. newDescriptor (uuidAt w (dataFilePath cfg name)) name) names)"
proof (induction names arbitrary: i)
  case Nil
  then show ?case by simp
next
  case (Cons name rest)
  from Cons.prems obtain u where s: "uuidAt w (dataFilePath cfg name) = Some u" "\<not> falsy u"
    by (auto split: option.splits)
  then obtain b e where there: "files w (pathJoin (envDirOf cfg) name) = Content (JsonText b e)"
    and uuid: "getProp e (js ''uuid'') = Some u"
    by (auto simp: uuidAt_def dataFilePath_def split: node.splits filetext.splits)
  from uuid obtain ms where "e = JObj ms" by (auto dest: getProp_Some_object)
  with there uuid s have
    "ensureEnvironmentFile gen cfg w (pathJoin (envDirOf cfg) name) name i = Inr (w, e)"
    by (simp add: ensureEnvironmentFile_def falsy_def typeofObject_def)
  moreover have "ensureEnvironmentFiles gen cfg (i + 1) rest w
      = Inr (w, map (\<lambda>name. newDescriptor (uuidAt w (dataFilePath cfg name)) name) rest)"
    using Cons.prems by (intro Cons.IH) simp
  ultimately show ?case using s uuid by simp
qed


section \<open>Bootstrap: the settings file\<close>

lemma findEntry_split:
  "findEntry u es = Inr (Some e) \<Longrightarrow>
   \<exists>pre post. es = pre @ e # post
      \<and> (\<forall>x \<in> set pre. fst x \<noteq> JNull \<and> \<not> strictEqual (getProp (fst x) (js ''uuid'')) u)
      \<and> fst e \<noteq> JNull \<and> strictEqual (getProp (fst e) (js ''uuid'')) u"
proof (induction es)
  case Nil
  then show ?case by simp
next
  case (Cons x xs)
  show ?case
  proof (cases "strictEqual (getProp (fst x) (js ''uuid'')) u")
    case True
    with Cons.prems have "e = x" "fst x \<noteq> JNull" by (auto split: if_splits)
    with True have "x # xs = [] @ e # xs \<and> fst e \<noteq> JNull
        \<and> strictEqual (getProp (fst e) (js ''uuid'')) u" by simp
    then show ?thesis by (intro exI [of _ "[]"] exI [of _ xs]) simp
  next
    case False
    with Cons.prems have x: "fst x \<noteq> JNull" and rest: "findEntry u xs = Inr (Some e)"
      by (auto split: if_splits)
    from Cons.IH [OF rest] obtain pre post where
      "xs = pre @ e # post"
      "\<forall>x \<in> set pre. fst x \<noteq> JNull \<and> \<not> strictEqual (getProp (fst x) (js ''uuid'')) u"
      "fst e \<noteq> JNull" "strictEqual (getProp (fst e) (js ''uuid'')) u" by blast
    with x False show ?thesis
      by (intro exI [of _ "x # pre"] exI [of _ post]) simp
  qed
qed

lemma findEntry_prefix:
  "\<forall>x \<in> set pre. fst x \<noteq> JNull \<and> \<not> strictEqual (getProp (fst x) (js ''uuid'')) u
   \<Longrightarrow> findEntry u (pre @ rest) = findEntry u rest"
  by (induction pre) simp_all

lemma findEntry_None:
  "findEntry u es = Inr None
   \<Longrightarrow> \<forall>x \<in> set es. fst x \<noteq> JNull \<and> \<not> strictEqual (getProp (fst x) (js ''uuid'')) u"
  by (induction es) (auto split: if_splits)

lemma findEntry_append_found:
  "findEntry u es = Inr (Some e) \<Longrightarrow> findEntry u (es @ extra) = Inr (Some e)"
  by (induction es) (auto split: if_splits)

lemma replaceFound_prefix:
  "\<forall>x \<in> set pre. \<not> strictEqual (getProp (fst x) (js ''uuid'')) u
   \<Longrightarrow> strictEqual (getProp (fst e) (js ''uuid'')) u
   \<Longrightarrow> replaceFound u updated (pre @ e # post) = pre @ (updated, snd e) # post"
  by (induction pre) simp_all

lemma findEntry_replaced_other:
  "getProp updated (js ''uuid'') = getProp (fst e) (js ''uuid'') \<Longrightarrow> updated \<noteq> JNull
   \<Longrightarrow> fst e \<noteq> JNull \<Longrightarrow> \<not> strictEqual (getProp (fst e) (js ''uuid'')) u'
   \<Longrightarrow> findEntry u' (pre @ (updated, al) # post) = findEntry u' (pre @ e # post)"
  by (induction pre) simp_all

lemma findEntry_untagged:
  "findEntry u (map (\<lambda>e. (fst e, None)) es)
     = (case findEntry u es of
          Inl x \<Rightarrow> Inl x
        | Inr None \<Rightarrow> Inr None
        | Inr (Some e) \<Rightarrow> Inr (Some (fst e, None)))"
  by (induction es) simp_all

lemma listedI:
  "(\<And>d. d \<in> set ds \<Longrightarrow>
      \<exists>existing al. findEntry (getProp d (js ''uuid'')) entries = Inr (Some (existing, al))
        \<and> strictEqual (getProp existing (js ''path'')) (getProp d (js ''path'')))
   \<Longrightarrow> listed entries ds"
  unfolding listed_def by blast

lemma listedD:
  "listed entries ds \<Longrightarrow> d \<in> set ds \<Longrightarrow>
   \<exists>existing al. findEntry (getProp d (js ''uuid'')) entries = Inr (Some (existing, al))
      \<and> strictEqual (getProp existing (js ''path'')) (getProp d (js ''path''))"
  unfolding listed_def by blast

lemma listed_untagged:
  assumes "listed entries ds"
  shows "listed (map (\<lambda>item. (item, None)) (map fst entries)) ds"
proof (rule listedI)
  fix d assume "d \<in> set ds"
  from listedD [OF assms this] obtain existing al where
    "findEntry (getProp d (js ''uuid'')) entries = Inr (Some (existing, al))"
    "strictEqual (getProp existing (js ''path'')) (getProp d (js ''path''))" by blast
  then show "\<exists>existing al.
      findEntry (getProp d (js ''uuid'')) (map (\<lambda>item. (item, None)) (map fst entries))
        = Inr (Some (existing, al))
      \<and> strictEqual (getProp existing (js ''path'')) (getProp d (js ''path''))"
    by (simp add: findEntry_untagged comp_def)
qed

lemma keyedD:
  assumes "keyed d"
  obtains u p where "primitive u" "\<not> falsy u" "d = descriptorOf u p"
    "getProp d (js ''uuid'') = Some u" "getProp d (js ''path'') = Some (JStr p)"
    "d \<noteq> JNull"
  using assms unfolding keyed_def by (auto simp: descriptorOf_props)

text \<open>One descriptor reconciled: it is listed afterwards, and so is what was listed.\<close>

lemma reconcileDescriptor_listed:
  assumes d: "keyed d"
    and seen: "listed entries seen"
    and consistent: "\<forall>d' \<in> set seen. getProp d' (js ''uuid'') = getProp d (js ''uuid'')
        \<longrightarrow> getProp d' (js ''path'') = getProp d (js ''path'')"
    and aliased: "\<forall>e \<in> set entries. snd e \<noteq> None \<longrightarrow> fst e \<in> D"
    and pushed: "\<forall>v \<in> D. getProp v (js ''uuid'') = getProp d (js ''uuid'')
        \<longrightarrow> getProp v (js ''path'') = getProp d (js ''path'')"
    and step: "reconcileDescriptor j d (entries, descs, c) = Inr (entries', descs', c')"
  shows "listed entries' (seen @ [d]) \<and> descs' = descs
     \<and> (\<forall>e \<in> set entries'. snd e \<noteq> None \<longrightarrow> fst e \<in> insert d D)"
proof -
  from d obtain u p where pu: "primitive u"
    and du: "getProp d (js ''uuid'') = Some u"
    and dp: "getProp d (js ''path'') = Some (JStr p)"
    and dn: "d \<noteq> JNull"
    by (rule keyedD)
  show ?thesis
  proof (cases "findEntry (Some u) entries")
    case (Inl e)
    with step du show ?thesis by (simp add: reconcileDescriptor_def)
  next
    case (Inr found)
    show ?thesis
    proof (cases found)
      case None
      with Inr step du have res: "entries' = entries @ [(d, Some j)]" "descs' = descs"
        by (simp_all add: reconcileDescriptor_def)
      have "listed (entries @ [(d, Some j)]) (seen @ [d])"
      proof (rule listedI)
        fix d' assume "d' \<in> set (seen @ [d])"
        then consider "d' \<in> set seen" | "d' = d" by auto
        then show "\<exists>existing al.
            findEntry (getProp d' (js ''uuid'')) (entries @ [(d, Some j)]) = Inr (Some (existing, al))
            \<and> strictEqual (getProp existing (js ''path'')) (getProp d' (js ''path''))"
        proof cases
          case 1
          from listedD [OF seen 1] show ?thesis
            by (auto dest: findEntry_append_found)
        next
          case 2
          from Inr None have "findEntry (Some u) (entries @ [(d, Some j)])
              = findEntry (Some u) [(d, Some j)]"
            by (intro findEntry_prefix findEntry_None) simp
          with 2 du dp dn show ?thesis by (simp add: strictEqual_string strictEqual_primitive [OF pu])
        qed
      qed
      with res aliased show ?thesis by auto
    next
      case (Some e)
      obtain existing al where e: "e = (existing, al)" by (cases e)
      from Inr Some e have found: "findEntry (Some u) entries = Inr (Some (existing, al))"
        by simp
      from findEntry_split [OF found] obtain pre post where
        entries: "entries = pre @ (existing, al) # post"
        and pre: "\<forall>x \<in> set pre. fst x \<noteq> JNull
            \<and> \<not> strictEqual (getProp (fst x) (js ''uuid'')) (Some u)"
        and en: "existing \<noteq> JNull"
        and eu: "getProp existing (js ''uuid'') = Some u"
        by (auto simp: strictEqual_string strictEqual_primitive [OF pu])
      from eu obtain ms where obj: "existing = JObj ms" by (auto dest: getProp_Some_object)
      then have truthy: "\<not> falsy existing" by (simp add: falsy_def)
      show ?thesis
      proof (cases "getProp existing (js ''path'') = Some (JStr p)")
        case True
        with found step du dp truthy have res: "entries' = entries" "descs' = descs"
          by (simp_all add: reconcileDescriptor_def strictEqual_string strictEqual_primitive [OF pu])
        have "listed entries (seen @ [d])"
        proof (rule listedI)
          fix d' assume "d' \<in> set (seen @ [d])"
          then consider "d' \<in> set seen" | "d' = d" by auto
          then show "\<exists>existing al.
              findEntry (getProp d' (js ''uuid'')) entries = Inr (Some (existing, al))
              \<and> strictEqual (getProp existing (js ''path'')) (getProp d' (js ''path''))"
          proof cases
            case 1
            from listedD [OF seen 1] show ?thesis .
          next
            case 2
            with found du dp True show ?thesis by (simp add: strictEqual_string strictEqual_primitive [OF pu])
          qed
        qed
        with res aliased show ?thesis by auto
      next
        case False
        have own: "al = None"
        proof (rule ccontr)
          assume "al \<noteq> None"
          with aliased entries have "existing \<in> D" by auto
          with pushed eu du dp False show False by auto
        qed
        define updated where "updated = assign existing (js ''path'') (Some (JStr p))"
        have uu: "getProp updated (js ''uuid'') = Some u"
          unfolding updated_def using eu by (simp add: getProp_assign_other key_distinct)
        have up: "getProp updated (js ''path'') = Some (JStr p)"
          unfolding updated_def obj by (rule getProp_assign_same)
        have un: "updated \<noteq> JNull"
          by (simp add: updated_def obj assign_def)
        have replaced: "replaceFound (Some u) updated entries = pre @ (updated, None) # post"
          unfolding entries using pre eu own
          by (subst replaceFound_prefix) (simp_all add: strictEqual_string strictEqual_primitive [OF pu])
        have "assignPath existing (Some (JStr p)) = Inr updated"
          by (simp add: assignPath_def obj updated_def)
        with found step du dp truthy False own
        have "entries' = replaceFound (Some u) updated entries \<and> descs' = descs"
          by (auto simp: reconcileDescriptor_def strictEqual_string strictEqual_primitive [OF pu])
        with replaced have res: "entries' = pre @ (updated, None) # post" "descs' = descs"
          by simp_all
        have mine: "findEntry (Some u) (pre @ (updated, None) # post)
            = Inr (Some (updated, None))"
          using pre un uu by (simp add: findEntry_prefix strictEqual_string strictEqual_primitive [OF pu])
        have "listed (pre @ (updated, None) # post) (seen @ [d])"
        proof (rule listedI)
          fix d' assume "d' \<in> set (seen @ [d])"
          then consider "d' \<in> set seen" "getProp d' (js ''uuid'') \<noteq> Some u"
            | "d' \<in> set seen" "getProp d' (js ''uuid'') = Some u" | "d' = d" by auto
          then show "\<exists>existing al.
              findEntry (getProp d' (js ''uuid'')) (pre @ (updated, None) # post)
                = Inr (Some (existing, al))
              \<and> strictEqual (getProp existing (js ''path'')) (getProp d' (js ''path''))"
          proof cases
            case 1
            have "\<not> strictEqual (getProp (fst (existing, al)) (js ''uuid'')) (getProp d' (js ''uuid''))"
              using 1(2) eu by (auto dest: strictEqual_imp_eq)
            then have "findEntry (getProp d' (js ''uuid'')) (pre @ (updated, None) # post)
                = findEntry (getProp d' (js ''uuid'')) (pre @ (existing, al) # post)"
              using uu eu un en by (intro findEntry_replaced_other) simp_all
            with listedD [OF seen 1(1)] show ?thesis unfolding entries by simp
          next
            case 2
            with consistent du dp have "getProp d' (js ''path'') = Some (JStr p)" by simp
            with 2 mine up show ?thesis by (simp add: strictEqual_string strictEqual_primitive [OF pu])
          next
            case 3
            with mine du dp up show ?thesis by (simp add: strictEqual_string strictEqual_primitive [OF pu])
          qed
        qed
        moreover have "\<forall>e \<in> set (pre @ (updated, None) # post). snd e \<noteq> None \<longrightarrow> fst e \<in> insert d D"
          using aliased unfolding entries by auto
        ultimately show ?thesis using res by simp
      qed
    qed
  qed
qed

lemma onePathD:
  "onePath ds \<Longrightarrow> d \<in> set ds \<Longrightarrow> d' \<in> set ds
   \<Longrightarrow> getProp d (js ''uuid'') = getProp d' (js ''uuid'')
   \<Longrightarrow> getProp d (js ''path'') = getProp d' (js ''path'')"
  unfolding onePath_def by blast

text \<open>
  After the loop over the descriptors all of them are listed, and none of them has
  been changed.
\<close>

lemma reconcile_listed:
  assumes keyed: "\<forall>d \<in> set dsAll. keyed d" and one: "onePath dsAll"
  shows "set ds \<subseteq> set dsAll \<Longrightarrow> set seen \<subseteq> set dsAll \<Longrightarrow> listed entries seen
     \<Longrightarrow> \<forall>e \<in> set entries. snd e \<noteq> None \<longrightarrow> fst e \<in> set dsAll
     \<Longrightarrow> reconcile j ds (entries, descs, c) = Inr (entries', descs', c')
     \<Longrightarrow> listed entries' (seen @ ds) \<and> descs' = descs"
proof (induction ds arbitrary: j entries descs c seen)
  case Nil
  then show ?case by simp
next
  case (Cons d rest)
  from Cons.prems(1) have d: "d \<in> set dsAll" and rest: "set rest \<subseteq> set dsAll" by simp_all
  from Cons.prems(5) obtain entries1 descs1 c1 where
    step: "reconcileDescriptor j d (entries, descs, c) = Inr (entries1, descs1, c1)"
    and loop: "reconcile (j + 1) rest (entries1, descs1, c1) = Inr (entries', descs', c')"
    by (auto split: sum.splits)
  have "listed entries1 (seen @ [d]) \<and> descs1 = descs
      \<and> (\<forall>e \<in> set entries1. snd e \<noteq> None \<longrightarrow> fst e \<in> insert d (set dsAll))"
  proof (rule reconcileDescriptor_listed [OF _ Cons.prems(3) _ Cons.prems(4) _ step])
    show "keyed d" using keyed d by blast
    show "\<forall>d' \<in> set seen. getProp d' (js ''uuid'') = getProp d (js ''uuid'')
        \<longrightarrow> getProp d' (js ''path'') = getProp d (js ''path'')"
      using onePathD [OF one _ d] Cons.prems(2) by blast
    show "\<forall>v \<in> set dsAll. getProp v (js ''uuid'') = getProp d (js ''uuid'')
        \<longrightarrow> getProp v (js ''path'') = getProp d (js ''path'')"
      using onePathD [OF one _ d] by blast
  qed
  then have l1: "listed entries1 (seen @ [d])" and d1: "descs1 = descs"
    and a1: "\<forall>e \<in> set entries1. snd e \<noteq> None \<longrightarrow> fst e \<in> set dsAll"
    using d by auto
  have "set (seen @ [d]) \<subseteq> set dsAll" using Cons.prems(2) d by simp
  from Cons.IH [OF rest this l1 a1 loop] d1 show ?case by simp
qed

text \<open>Descriptors that are listed change nothing when they are reconciled.\<close>

lemma reconcile_unchanged:
  "\<forall>d \<in> set ds. keyed d \<Longrightarrow> listed entries ds
   \<Longrightarrow> reconcile j ds (entries, descs, c) = Inr (entries, descs, c)"
proof (induction ds arbitrary: j)
  case Nil
  then show ?case by simp
next
  case (Cons d rest)
  from Cons.prems(1) have "keyed d" by simp
  then obtain u p where pu: "primitive u" and du: "getProp d (js ''uuid'') = Some u"
    and dp: "getProp d (js ''path'') = Some (JStr p)" by (rule keyedD)
  from listedD [OF Cons.prems(2), of d] du dp obtain existing al where
    found: "findEntry (Some u) entries = Inr (Some (existing, al))"
    and same: "getProp existing (js ''path'') = Some (JStr p)"
    by (auto simp: strictEqual_string strictEqual_primitive [OF pu])
  from findEntry_split [OF found] have "getProp existing (js ''uuid'') = Some u"
    by (auto simp: strictEqual_string strictEqual_primitive [OF pu])
  then obtain ms where "existing = JObj ms" by (auto dest: getProp_Some_object)
  then have "\<not> falsy existing" by (simp add: falsy_def)
  with found same du dp have
    "reconcileDescriptor j d (entries, descs, c) = Inr (entries, descs, c)"
    by (simp add: reconcileDescriptor_def strictEqual_string strictEqual_primitive [OF pu])
  moreover have "listed entries rest" using Cons.prems(2) by (simp add: listed_def)
  ultimately show ?case using Cons.IH [of "j + 1"] Cons.prems(1) by simp
qed

lemma findEntry_among:
  "\<forall>x \<in> set items. keyed x \<Longrightarrow> d \<in> set items
   \<Longrightarrow> \<exists>existing \<in> set items.
         findEntry (getProp d (js ''uuid'')) (map (\<lambda>item. (item, None)) items)
           = Inr (Some (existing, None))
         \<and> getProp existing (js ''uuid'') = getProp d (js ''uuid'')"
proof (induction items)
  case Nil
  then show ?case by simp
next
  case (Cons x xs)
  from Cons.prems(1) have "keyed x" by simp
  then obtain u p where pu: "primitive u" and xu: "getProp x (js ''uuid'') = Some u"
    and xn: "x \<noteq> JNull"
    by (rule keyedD)
  show ?case
  proof (cases "strictEqual (getProp x (js ''uuid'')) (getProp d (js ''uuid''))")
    case True
    then have "getProp x (js ''uuid'') = getProp d (js ''uuid'')" by (rule strictEqual_imp_eq)
    with True xn show ?thesis by simp
  next
    case False
    have "d \<noteq> x"
    proof
      assume "d = x"
      with False xu show False by (simp add: strictEqual_string strictEqual_primitive [OF pu])
    qed
    with Cons.prems have "d \<in> set xs" "\<forall>x \<in> set xs. keyed x" by simp_all
    from Cons.IH [OF this(2,1)] False xn show ?thesis by auto
  qed
qed

lemma listed_self:
  assumes keyed: "\<forall>d \<in> set ds. keyed d" and one: "onePath ds"
  shows "listed (map (\<lambda>item. (item, None)) ds) ds"
proof (rule listedI)
  fix d assume d: "d \<in> set ds"
  from findEntry_among [OF keyed d] obtain existing where
    ex: "existing \<in> set ds"
    and found: "findEntry (getProp d (js ''uuid'')) (map (\<lambda>item. (item, None)) ds)
        = Inr (Some (existing, None))"
    and same: "getProp existing (js ''uuid'') = getProp d (js ''uuid'')" by blast
  from keyed d obtain p where "getProp d (js ''path'') = Some (JStr p)"
    by (auto elim: keyedD)
  with onePathD [OF one ex d same] found
  show "\<exists>existing al.
      findEntry (getProp d (js ''uuid'')) (map (\<lambda>item. (item, None)) ds) = Inr (Some (existing, al))
      \<and> strictEqual (getProp existing (js ''path'')) (getProp d (js ''path''))"
    by (simp add: strictEqual_string)
qed

lemma buildDefaultSettings_props:
  "getProp (buildDefaultSettings cfg ds) (js ''environments'') = Some (JArr ds)"
  "getProp (buildDefaultSettings cfg ds) (js ''activeEnvironmentUuid'')
     = (case ds of [] \<Rightarrow> Some JNull | first # _ \<Rightarrow> getProp first (js ''uuid''))"
  "getProp (buildDefaultSettings cfg ds) (js ''uuid'') = None"
  "\<exists>ms. buildDefaultSettings cfg ds = JObj ms"
proof -
  obtain active where
    "(case ds of [] \<Rightarrow> Some JNull | first # _ \<Rightarrow> getProp first (js ''uuid'')) = active" by simp
  then show "getProp (buildDefaultSettings cfg ds) (js ''environments'') = Some (JArr ds)"
    "getProp (buildDefaultSettings cfg ds) (js ''activeEnvironmentUuid'')
       = (case ds of [] \<Rightarrow> Some JNull | first # _ \<Rightarrow> getProp first (js ''uuid''))"
    "getProp (buildDefaultSettings cfg ds) (js ''uuid'') = None"
    by (cases active; simp add: buildDefaultSettings_def objectOf_def getProp_def js_def)+
  show "\<exists>ms. buildDefaultSettings cfg ds = JObj ms"
    by (simp add: buildDefaultSettings_def objectOf_def)
qed

text \<open>
  A settings file that lists the descriptors and has an active environment is left as
  it is.
\<close>

lemma ensureSettingsFile_settled:
  assumes there: "files w (settingsPathOf cfg) = Content (JsonText b (JObj ms))"
    and items: "getProp (JObj ms) (js ''environments'') = Some (JArr items)"
    and listed: "listed (map (\<lambda>item. (item, None)) items) ds"
    and keyed: "\<forall>d \<in> set ds. keyed d"
    and active: "ds = [] \<or> (\<exists>a. getProp (JObj ms) (js ''activeEnvironmentUuid'') = Some a \<and> \<not> falsy a)"
  shows "ensureSettingsFile cfg w ds = Inr (w, ds)"
proof -
  have loop: "reconcile 0 ds (map (\<lambda>item. (item, None)) items, ds, False)
      = Inr (map (\<lambda>item. (item, None)) items, ds, False)"
    using keyed listed by (rule reconcile_unchanged)
  have object: "\<not> falsy (JObj ms)" "typeofObject (JObj ms)"
    by (simp_all add: falsy_def typeofObject_def)
  from active have "\<not> ((case getProp (JObj ms) (js ''activeEnvironmentUuid'') of
      None \<Rightarrow> True | Some a \<Rightarrow> falsy a) \<and> ds \<noteq> [])"
    by auto
  with there items loop object show ?thesis
    by (auto simp: ensureSettingsFile_def Let_def)
qed

text \<open>A second pass of \<open>ensureSettingsFile\<close> over its own result writes nothing.\<close>

lemma ensureSettingsFile_again:
  assumes run: "ensureSettingsFile cfg w ds = Inr (w1, ds1)"
    and keyed: "\<forall>d \<in> set ds. keyed d" and one: "onePath ds"
    and object: "\<not> settingsArray cfg w"
  shows "ds1 = ds \<and> ensureSettingsFile cfg w1 ds = Inr (w1, ds)"
proof -
  define sp where "sp = settingsPathOf cfg"
  have first: "ds = [] \<or> (\<exists>a. (case ds of [] \<Rightarrow> None | first # _ \<Rightarrow> getProp first (js ''uuid'')) = Some a
      \<and> \<not> falsy a)"
  proof (cases ds)
    case Nil
    then show ?thesis by simp
  next
    case (Cons d0 rest)
    with keyed have "keyed d0" by simp
    then obtain u where "\<not> falsy u" "getProp d0 (js ''uuid'') = Some u" by (rule keyedD)
    with Cons show ?thesis by simp
  qed
  have default: "ensureSettingsFile cfg w' ds = Inr (w', ds)"
    if "w' = writeFile w sp (JsonText True (buildDefaultSettings cfg ds))" for w'
  proof -
    obtain ms where ms: "buildDefaultSettings cfg ds = JObj ms"
      using buildDefaultSettings_props(4) by blast
    have "files w' (settingsPathOf cfg) = Content (JsonText True (JObj ms))"
      using that ms by (simp add: writeFile_def sp_def)
    moreover have "getProp (JObj ms) (js ''environments'') = Some (JArr ds)"
      using buildDefaultSettings_props(1) [of cfg ds] ms by simp
    moreover have "listed (map (\<lambda>item. (item, None)) ds) ds"
      using keyed one by (rule listed_self)
    moreover have "ds = [] \<or> (\<exists>a. getProp (JObj ms) (js ''activeEnvironmentUuid'') = Some a \<and> \<not> falsy a)"
      using first buildDefaultSettings_props(2) [of cfg ds] ms by (cases ds) auto
    ultimately show ?thesis using keyed by (intro ensureSettingsFile_settled)
  qed
  show ?thesis
  proof (cases "files w sp")
    case NoEnt
    with run have "ds1 = ds" "w1 = writeFile w sp (JsonText True (buildDefaultSettings cfg ds))"
      by (auto simp: ensureSettingsFile_def sp_def)
    with default show ?thesis by simp
  next
    case Inaccessible
    with run show ?thesis by (simp add: ensureSettingsFile_def sp_def)
  next
    case (Content content)
    show ?thesis
    proof (cases content)
      case Unparsable
      with Content run
      have "ds1 = ds" "w1 = writeFile w sp (JsonText True (buildDefaultSettings cfg ds))"
        by (auto simp: ensureSettingsFile_def sp_def)
      with default show ?thesis by simp
    next
      case (JsonText b settings)
      show ?thesis
      proof (cases "falsy settings \<or> \<not> typeofObject settings")
        case True
        with Content JsonText run
        have "ds1 = ds" "w1 = writeFile w sp (JsonText True (buildDefaultSettings cfg ds))"
          by (auto simp: ensureSettingsFile_def sp_def)
        with default show ?thesis by simp
      next
        case False
        with Content JsonText object obtain ms where ms: "settings = JObj ms"
          by (cases settings) (simp_all add: settingsArray_def sp_def falsy_def typeofObject_def)
        define items0 where "items0 =
            (case getProp settings (js ''environments'') of Some (JArr items) \<Rightarrow> items | _ \<Rightarrow> [])"
        define setActive where "setActive \<longleftrightarrow>
            (case getProp settings (js ''activeEnvironmentUuid'') of None \<Rightarrow> True | Some a \<Rightarrow> falsy a)
            \<and> ds \<noteq> []"
        from run Content JsonText False obtain entries1 descs1 changed1 where
          loop: "reconcile 0 ds (map (\<lambda>item. (item, None)) items0, ds, False)
              = Inr (entries1, descs1, changed1)"
          unfolding ensureSettingsFile_def Let_def sp_def items0_def
          by (auto split: sum.splits)
        have "listed entries1 ([] @ ds) \<and> descs1 = ds"
          using keyed one _ _ _ _ loop
          by (rule reconcile_listed) (auto simp: listed_def)
        then have listed1: "listed entries1 ds" and descs1: "descs1 = ds" by simp_all
        define settings1 where
          "settings1 = assign settings (js ''environments'') (Some (JArr (map fst entries1)))"
        define settings2 where "settings2 =
            (if setActive
             then assign settings1 (js ''activeEnvironmentUuid'')
                    (case ds of [] \<Rightarrow> None | first # _ \<Rightarrow> getProp first (js ''uuid''))
             else settings1)"
        have "ensureSettingsFile cfg w ds
            = (if changed1 \<or> setActive then Inr (writeFile w sp (JsonText True settings2), ds)
               else Inr (w, ds))"
          using Content JsonText False loop descs1
          by (simp add: ensureSettingsFile_def Let_def sp_def items0_def setActive_def
              settings1_def settings2_def)
        with run have result: "ds1 = ds"
          "w1 = (if changed1 \<or> setActive then writeFile w sp (JsonText True settings2) else w)"
          by (auto split: if_splits)
        show ?thesis
        proof (cases "changed1 \<or> setActive")
          case False
          with result run show ?thesis by simp
        next
          case True
          obtain ms1 where ms1: "settings1 = JObj ms1"
            unfolding settings1_def ms using assign_object by blast
          have env1: "getProp settings1 (js ''environments'') = Some (JArr (map fst entries1))"
            unfolding settings1_def ms by (rule getProp_assign_same)
          have act1: "getProp settings1 (js ''activeEnvironmentUuid'')
              = getProp settings (js ''activeEnvironmentUuid'')"
            unfolding settings1_def by (simp add: getProp_assign_other key_distinct)
          have "\<exists>ms2. settings2 = JObj ms2"
            unfolding settings2_def ms1 by (simp add: assign_object)
          then obtain ms2 where ms2: "settings2 = JObj ms2" by blast
          have env2: "getProp settings2 (js ''environments'') = Some (JArr (map fst entries1))"
            unfolding settings2_def using env1 by (simp add: getProp_assign_other key_distinct)
          have act2: "ds = [] \<or> (\<exists>a. getProp settings2 (js ''activeEnvironmentUuid'') = Some a
              \<and> \<not> falsy a)"
          proof (cases setActive)
            case True
            then have "ds \<noteq> []" by (simp add: setActive_def)
            with first obtain a where
              "(case ds of [] \<Rightarrow> None | first # _ \<Rightarrow> getProp first (js ''uuid'')) = Some a"
              "\<not> falsy a" by blast
            with True show ?thesis
              unfolding settings2_def ms1 by (simp add: getProp_assign_same)
          next
            case False
            then show ?thesis
              unfolding settings2_def setActive_def using act1
              by (auto split: option.splits)
          qed
          have "files w1 (settingsPathOf cfg) = Content (JsonText True (JObj ms2))"
            using result True ms2 by (simp add: writeFile_def sp_def)
          moreover have "listed (map (\<lambda>item. (item, None)) (map fst entries1)) ds"
            using listed1 by (rule listed_untagged)
          ultimately have "ensureSettingsFile cfg w1 ds = Inr (w1, ds)"
            using env2 act2 keyed unfolding ms2 by (intro ensureSettingsFile_settled)
          with result show ?thesis by simp
        qed
      qed
    qed
  qed
qed

text \<open>
  What \<open>ensureSettingsFile\<close> writes keeps the uuid of a document that has one: a
  configured file that is also the settings file still holds its document.
\<close>

lemma ensureSettingsFile_uuidAt:
  assumes run: "ensureSettingsFile cfg w ds = Inr (w1, ds1)"
    and some: "uuidAt w p \<noteq> None"
  shows "uuidAt w1 p = uuidAt w p"
proof (cases "p = settingsPathOf cfg")
  case False
  with run show ?thesis
    by (auto simp: ensureSettingsFile_def uuidAt_def writeFile_def Let_def
        split: node.splits filetext.splits if_splits sum.splits)
next
  case True
  from some obtain b settings where
    there: "files w (settingsPathOf cfg) = Content (JsonText b settings)"
    and uuid: "getProp settings (js ''uuid'') \<noteq> None"
    unfolding True by (auto simp: uuidAt_def split: node.splits filetext.splits)
  from uuid obtain ms where ms: "settings = JObj ms" by (auto dest: getProp_Some_object)
  then have object: "\<not> falsy settings" "typeofObject settings"
    by (simp_all add: falsy_def typeofObject_def)
  have kept: "getProp (assign (assign settings (js ''environments'') x) (js ''activeEnvironmentUuid'') y)
      (js ''uuid'') = getProp settings (js ''uuid'')" for x y
    by (simp add: getProp_assign_other key_distinct)
  have kept1: "getProp (assign settings (js ''environments'') x) (js ''uuid'')
      = getProp settings (js ''uuid'')" for x
    by (simp add: getProp_assign_other key_distinct)
  from run there object show ?thesis
    unfolding True
    by (auto simp: ensureSettingsFile_def uuidAt_def writeFile_def Let_def kept kept1
        split: if_splits sum.splits)
qed


lemma ensureSettingsFile_array:
  assumes "ensureSettingsFile cfg w ds = Inr (w1, ds1)" and "settingsArray cfg w"
  shows "settingsArray cfg w1"
proof -
  from assms(2) obtain b items where
    there: "files w (settingsPathOf cfg) = Content (JsonText b (JArr items))"
    by (auto simp: settingsArray_def split: node.splits filetext.splits json.splits)
  have "assign (JArr items) key x = JArr items" for key x by (simp add: assign_def)
  with assms(1) there show ?thesis
    by (auto simp: ensureSettingsFile_def settingsArray_def writeFile_def Let_def falsy_def
        typeofObject_def split: sum.splits if_splits)
qed

lemma ensureInitialState_Inr:
  assumes "ensureInitialState gen cfg w = Inr (w1, st)"
  obtains wm ds where
    "ensureEnvironmentFiles gen cfg 0 (parseDataFileNames (DEFAULT_DATA_FILES cfg)) w = Inr (wm, ds)"
    "ensureSettingsFile cfg wm ds = Inr (w1, descriptors st)"
    "st = \<lparr>envDir = envDirOf cfg,
           dataFiles = resolveDataFiles cfg (parseDataFileNames (DEFAULT_DATA_FILES cfg)),
           descriptors = descriptors st, settingsPath = settingsPathOf cfg\<rparr>"
  using assms
  by (auto simp: ensureInitialState_def Let_def split: sum.splits prod.splits)

lemma map_updateAt: "(\<And>x. f (g x) = f x) \<Longrightarrow> map f (updateAt i g xs) = map f xs"
  by (induction xs arbitrary: i) (auto split: nat.splits)

text \<open>The loop over the descriptors changes the uuid of none of them.\<close>

lemma reconcile_uuids:
  "reconcile j ds (entries, descs, c) = Inr (entries', descs', c')
   \<Longrightarrow> map (\<lambda>d. getProp d (js ''uuid'')) descs' = map (\<lambda>d. getProp d (js ''uuid'')) descs"
proof (induction ds arbitrary: j entries descs c)
  case Nil
  then show ?case by simp
next
  case (Cons d rest)
  from Cons.prems obtain entries1 descs1 c1 where
    step: "reconcileDescriptor j d (entries, descs, c) = Inr (entries1, descs1, c1)"
    and loop: "reconcile (j + 1) rest (entries1, descs1, c1) = Inr (entries', descs', c')"
    by (auto split: sum.splits)
  have kept: "getProp (assign x (js ''path'') p) (js ''uuid'') = getProp x (js ''uuid'')" for x p
    by (simp add: getProp_assign_other key_distinct)
  have "map (\<lambda>d. getProp d (js ''uuid'')) descs1 = map (\<lambda>d. getProp d (js ''uuid'')) descs"
    using step
    by (auto simp: reconcileDescriptor_def map_updateAt kept
        split: sum.splits option.splits if_splits prod.splits)
  with Cons.IH [OF loop] show ?case by simp
qed

text \<open>Descriptors with uuids that are not in the entries, and differ, are all pushed.\<close>

lemma reconcile_fresh:
  "distinct (map (\<lambda>d. getProp d (js ''uuid'')) ds) \<Longrightarrow> \<forall>d \<in> set ds. d \<noteq> JNull
   \<Longrightarrow> \<forall>e \<in> set entries. fst e \<noteq> JNull
         \<and> (\<forall>d \<in> set ds. getProp (fst e) (js ''uuid'') \<noteq> getProp d (js ''uuid''))
   \<Longrightarrow> \<exists>entries'. reconcile j ds (entries, descs, c) = Inr (entries', descs, c \<or> ds \<noteq> [])
         \<and> map fst entries' = map fst entries @ ds"
proof (induction ds arbitrary: j entries c)
  case Nil
  then show ?case by simp
next
  case (Cons d rest)
  have "\<forall>x \<in> set entries. fst x \<noteq> JNull
      \<and> \<not> strictEqual (getProp (fst x) (js ''uuid'')) (getProp d (js ''uuid''))"
    using Cons.prems(3) by (auto dest: strictEqual_imp_eq)
  then have "findEntry (getProp d (js ''uuid'')) (entries @ []) = findEntry (getProp d (js ''uuid'')) []"
    by (rule findEntry_prefix)
  then have step: "reconcileDescriptor j d (entries, descs, c)
      = Inr (entries @ [(d, Some j)], descs, True)"
    by (simp add: reconcileDescriptor_def)
  have "\<exists>entries'. reconcile (j + 1) rest (entries @ [(d, Some j)], descs, True)
        = Inr (entries', descs, True \<or> rest \<noteq> [])
      \<and> map fst entries' = map fst (entries @ [(d, Some j)]) @ rest"
    using Cons.prems by (intro Cons.IH) auto
  with step show ?case by simp
qed

text \<open>The definitions a bootstrap run on concrete inputs is evaluated with.\<close>

lemma example_names:
  "parseDataFileNames (js ''a.json,b.json'') = [js ''a.json'', js ''b.json'']"
  "parseDataFileNames (js ''a.json,a.json'') = [js ''a.json'', js ''a.json'']"
  "parseDataFileNames (js ''a.json'') = [js ''a.json'']"
  by (simp_all add: parseDataFileNames_def ensureJsonExtension_def sanitizeStorageKey_def
      normalizeSeparators_def trim_def isWhiteSpace_def isKeyChar_def toLowerCase_def
      endsWith_def js_def slash_def backslash_def comma_def)

lemma example_paths:
  "pathJoin (js ''/data'') (js ''environments'') = js ''/data/environments''"
  "pathJoin (js ''/data'') (js ''settings.json'') = js ''/data/settings.json''"
  "pathJoin (js ''/data/environments'') (js ''a.json'') = js ''/data/environments/a.json''"
  "pathJoin (js ''/data/environments'') (js ''b.json'') = js ''/data/environments/b.json''"
  by (simp_all add: pathJoin_def normalize_def normalizeString_def normalizeStep_def js_def
      slash_def Let_def)


lemma js_eq: "js a = js b \<longleftrightarrow> a = b"
proof -
  have "inj (of_char :: char \<Rightarrow> nat)" by (rule inj_on_inverseI [of _ char_of]) simp
  then show ?thesis by (simp add: js_def inj_map_eq_map)
qed

lemma js_Nil: "js a = [] \<longleftrightarrow> a = []" "[] = js a \<longleftrightarrow> a = []"
  by (auto simp: js_def)

lemmas bootstrap_run =
  secondRunWrites_def reconciledDescriptors_def ensureInitialState_def
  ensureSettingsFile_def ensureEnvironmentFile_def BuildEnvironment_def writeFile_def
  buildDefaultSettings_def reconcileDescriptor_def assignPath_def newDescriptor_def
  objectOf_def getProp_def assign_def strictEqual_def primitive_def falsy_def typeofObject_def
  resolveDataFiles_def resolvedDefaultName_def resolvedSuffix_def settingsPathOf_def
  envDirOf_def example_names example_paths
  twoFiles_def sameFileTwice_def oneFile_def numbered_def emptyWorld_def copiedWorld_def
  copiedDocument_def objectKeyedWorld_def bareSettings_def withSettings_def descriptorOf_def
  toString10.simps Let_def js_eq js_Nil

text \<open>
  Claim C2, as stated, has the second run write nothing for every configuration and
  every state a first run leaves. It writes the settings file again in three cases:
  the two configured files \<open>a.json\<close> and \<open>b.json\<close> hold the same document (the
  same uuid); the settings file holds a JSON array; the uuid of the document in
  \<open>a.json\<close> is an object.
\<close>

theorem bootstrap_counterexample:
  "secondRunWrites numbered twoFiles copiedWorld = Some [js ''/data/settings.json'']
   \<and> secondRunWrites numbered twoFiles (withSettings emptyWorld (JArr []))
       = Some [js ''/data/settings.json'']
   \<and> secondRunWrites numbered oneFile objectKeyedWorld = Some [js ''/data/settings.json'']"
  by (simp add: bootstrap_run)



text \<open>
  Claim C2, amended. For every configuration and every data directory on which a
  first run of \<open>ensureInitialState\<close> completes: if, in what it leaves, every
  configured file holds a document whose uuid is a non-empty string, no two
  configured files with different names hold documents with the same uuid, and the
  settings file does not hold a JSON array, then a second run on what the first left
  completes with the same result and leaves everything as it is: it writes no file.
\<close>

theorem bootstrap_second_run_writes_nothing:
  assumes first: "ensureInitialState gen cfg w = Inr (w1, st)"
    and uuids: "stringUuids cfg w1"
    and paths: "onePathPerUuid cfg w1"
    and object: "\<not> settingsArray cfg w1"
  shows "ensureInitialState gen cfg w1 = Inr (w1, st)
     \<and> secondRunWrites gen cfg w = Some []"
proof -
  define names where "names = parseDataFileNames (DEFAULT_DATA_FILES cfg)"
  from first obtain wm ds where
    loop: "ensureEnvironmentFiles gen cfg 0 names w = Inr (wm, ds)"
    and settings: "ensureSettingsFile cfg wm ds = Inr (w1, descriptors st)"
    and st: "st = \<lparr>envDir = envDirOf cfg, dataFiles = resolveDataFiles cfg names,
                   descriptors = descriptors st, settingsPath = settingsPathOf cfg\<rparr>"
    unfolding names_def by (rule ensureInitialState_Inr)
  from ensureEnvironmentFiles_descriptors [OF loop] have
    built: "ds = map (\<lambda>name. newDescriptor (uuidAt wm (dataFilePath cfg name)) name) names"
    and some: "\<forall>name \<in> set names. uuidAt wm (dataFilePath cfg name) \<noteq> None"
    by simp_all
  have same: "uuidAt w1 (dataFilePath cfg name) = uuidAt wm (dataFilePath cfg name)"
    if "name \<in> set names" for name
    using ensureSettingsFile_uuidAt [OF settings] some that by blast
  then have ds: "ds = map (\<lambda>name. newDescriptor (uuidAt w1 (dataFilePath cfg name)) name) names"
    unfolding built by simp
  have string: "\<exists>u. primitive u \<and> \<not> falsy u \<and> uuidAt w1 (dataFilePath cfg name) = Some u"
    if "name \<in> set names" for name
  proof -
    from uuids that have
      "(case uuidAt w1 (dataFilePath cfg name) of Some (JStr s) \<Rightarrow> s \<noteq> [] | _ \<Rightarrow> False)"
      unfolding stringUuids_def names_def [symmetric] list_all_iff by blast
    then show ?thesis
      by (cases "uuidAt w1 (dataFilePath cfg name)")
        (auto simp: primitive_def falsy_def split: json.splits)
  qed
  have keyed: "\<forall>d \<in> set ds. keyed d"
  proof
    fix d assume "d \<in> set ds"
    then obtain name where "name \<in> set names"
      "d = newDescriptor (uuidAt w1 (dataFilePath cfg name)) name" unfolding ds by auto
    with string [of name] show "keyed d"
      unfolding keyed_def by (fastforce simp: newDescriptor_Some)
  qed
  have one: "onePath ds"
    unfolding onePath_def
  proof (intro ballI impI)
    fix d d' assume "d \<in> set ds" "d' \<in> set ds"
      and eq: "getProp d (js ''uuid'') = getProp d' (js ''uuid'')"
    then obtain name name' where n: "name \<in> set names" "name' \<in> set names"
      and d: "d = newDescriptor (uuidAt w1 (dataFilePath cfg name)) name"
        "d' = newDescriptor (uuidAt w1 (dataFilePath cfg name')) name'"
      unfolding ds by auto
    from eq have "uuidAt w1 (dataFilePath cfg name) = uuidAt w1 (dataFilePath cfg name')"
      unfolding d by (simp add: newDescriptor_props)
    with paths n have "name = name'"
      unfolding onePathPerUuid_def names_def [symmetric] by blast
    then show "getProp d (js ''path'') = getProp d' (js ''path'')"
      unfolding d by (simp add: newDescriptor_props)
  qed
  have "\<not> settingsArray cfg wm"
    using ensureSettingsFile_array [OF settings] object by blast
  with settings keyed one have returned: "descriptors st = ds"
    and settings2: "ensureSettingsFile cfg w1 ds = Inr (w1, ds)"
    using ensureSettingsFile_again by blast+
  have "list_all (\<lambda>name. case uuidAt w1 (dataFilePath cfg name) of
                          Some u \<Rightarrow> primitive u \<and> \<not> falsy u
                        | None \<Rightarrow> False) names"
    unfolding list_all_iff using string by fastforce
  then have "ensureEnvironmentFiles gen cfg 0 names w1
      = Inr (w1, map (\<lambda>name. newDescriptor (uuidAt w1 (dataFilePath cfg name)) name) names)"
    by (rule ensureEnvironmentFiles_on_documents)
  then have loop2: "ensureEnvironmentFiles gen cfg 0 names w1 = Inr (w1, ds)"
    unfolding ds .
  have "ensureInitialState gen cfg w1 =
      Inr (w1, \<lparr>envDir = envDirOf cfg, dataFiles = resolveDataFiles cfg names,
                descriptors = ds, settingsPath = settingsPathOf cfg\<rparr>)"
    using loop2 settings2 by (simp add: ensureInitialState_def names_def)
  with st returned have second: "ensureInitialState gen cfg w1 = Inr (w1, st)" by simp
  with first show ?thesis by (simp add: secondRunWrites_def)
qed

theorem bootstrap_second_run_witness:
  "secondRunWrites numbered twoFiles emptyWorld = Some []
   \<and> secondRunWrites numbered twoFiles (withSettings emptyWorld bareSettings) = Some []"
proof -
  have "\<exists>w1 st. ensureInitialState numbered twoFiles emptyWorld = Inr (w1, st)
      \<and> stringUuids twoFiles w1 \<and> onePathPerUuid twoFiles w1 \<and> \<not> settingsArray twoFiles w1"
    by (simp add: bootstrap_run stringUuids_def onePathPerUuid_def settingsArray_def
        uuidAt_def dataFilePath_def)
  then obtain w1 st where
    "ensureInitialState numbered twoFiles emptyWorld = Inr (w1, st)"
    "stringUuids twoFiles w1" "onePathPerUuid twoFiles w1" "\<not> settingsArray twoFiles w1"
    by blast
  then have one: "secondRunWrites numbered twoFiles emptyWorld = Some []"
    using bootstrap_second_run_writes_nothing by blast
  have "\<exists>w1 st. ensureInitialState numbered twoFiles (withSettings emptyWorld bareSettings)
        = Inr (w1, st)
      \<and> stringUuids twoFiles w1 \<and> onePathPerUuid twoFiles w1 \<and> \<not> settingsArray twoFiles w1"
    by (simp add: bootstrap_run stringUuids_def onePathPerUuid_def settingsArray_def
        uuidAt_def dataFilePath_def)
  then obtain w1 st where
    "ensureInitialState numbered twoFiles (withSettings emptyWorld bareSettings) = Inr (w1, st)"
    "stringUuids twoFiles w1" "onePathPerUuid twoFiles w1" "\<not> settingsArray twoFiles w1"
    by blast
  then have "secondRunWrites numbered twoFiles (withSettings emptyWorld bareSettings) = Some []"
    using bootstrap_second_run_writes_nothing by blast
  with one show ?thesis by simp
qed

text \<open>
  Claim C3, as stated, has \<open>N\<close> descriptors for every list of \<open>N\<close> data files and
  every settings document that is there, parses and holds no descriptor. With the
  same file configured twice, and with two files that hold the same document, two
  files give one descriptor; with a settings document that is an empty JSON array,
  two files give none.
\<close>

theorem descriptors_counterexample:
  "length (parseDataFileNames (DEFAULT_DATA_FILES sameFileTwice)) = 2
   \<and> reconciledDescriptors numbered sameFileTwice (withSettings emptyWorld bareSettings)
       = Some [descriptorOf (JStr (numbered 0)) (js ''a.json'')]
   \<and> length (parseDataFileNames (DEFAULT_DATA_FILES twoFiles)) = 2
   \<and> reconciledDescriptors numbered twoFiles (withSettings copiedWorld bareSettings)
       = Some [descriptorOf (JStr (js ''u1'')) (js ''b.json'')]
   \<and> reconciledDescriptors numbered twoFiles (withSettings emptyWorld (JArr [])) = None
   \<and> files (fst (projr (ensureInitialState numbered twoFiles (withSettings emptyWorld (JArr [])))))
        (js ''/data/settings.json'') = Content (JsonText True (JArr []))"
  by (simp add: bootstrap_run)


text \<open>
  Claim C3, amended. When the settings file is there, parses to a value that is not
  an array and holds no descriptor, and the uuids of the descriptors of the \<open>N\<close>
  configured files are pairwise distinct, the settings file holds exactly the \<open>N\<close>
  descriptors of the run afterwards, in file order, and the uuid of each is the uuid
  of the document in its file.
\<close>

theorem descriptors_after_reconciling:
  assumes first: "ensureInitialState gen cfg w = Inr (w1, st)"
    and none: "noPriorDescriptors (files w (settingsPathOf cfg))"
    and uuids: "distinct (map (\<lambda>d. getProp d (js ''uuid'')) (descriptors st))"
  shows "reconciledDescriptors gen cfg w = Some (descriptors st)
     \<and> length (descriptors st) = length (parseDataFileNames (DEFAULT_DATA_FILES cfg))
     \<and> list_all2
         (\<lambda>file d. \<exists>pretty e. files w1 file = Content (JsonText pretty e)
                      \<and> getProp e (js ''uuid'') = getProp d (js ''uuid''))
         (dataFiles st) (descriptors st)"
proof -
  define names where "names = parseDataFileNames (DEFAULT_DATA_FILES cfg)"
  define sp where "sp = settingsPathOf cfg"
  from first obtain wm ds where
    loop: "ensureEnvironmentFiles gen cfg 0 names w = Inr (wm, ds)"
    and settings: "ensureSettingsFile cfg wm ds = Inr (w1, descriptors st)"
    and st: "st = \<lparr>envDir = envDirOf cfg, dataFiles = resolveDataFiles cfg names,
                   descriptors = descriptors st, settingsPath = settingsPathOf cfg\<rparr>"
    unfolding names_def by (rule ensureInitialState_Inr)
  from ensureEnvironmentFiles_descriptors [OF loop] have
    built: "ds = map (\<lambda>name. newDescriptor (uuidAt wm (dataFilePath cfg name)) name) names"
    and some: "\<forall>name \<in> set names. uuidAt wm (dataFilePath cfg name) \<noteq> None"
    by simp_all
  have len: "length ds = length names" unfolding built by simp
  have "names \<noteq> []" by (simp add: names_def parseDataFileNames_not_Nil)
  with len have ne: "ds \<noteq> []" by auto
  have objects: "\<forall>d \<in> set ds. d \<noteq> JNull" unfolding built by (auto simp: newDescriptor_props)
  from none obtain b v where before: "files w sp = Content (JsonText b v)"
    and v: "case v of JArr _ \<Rightarrow> False
              | JObj _ \<Rightarrow> (case getProp v (js ''environments'') of
                            Some (JArr items) \<Rightarrow> items = [] | _ \<Rightarrow> True)
              | _ \<Rightarrow> True"
    unfolding sp_def by (auto simp: noPriorDescriptors_def split: node.splits filetext.splits)
  have there: "files wm sp = Content (JsonText b v)"
    using loop before by (rule ensureEnvironmentFiles_preserves)
  have written: "descriptors st = ds
      \<and> (\<exists>pretty v1. files w1 sp = Content (JsonText pretty v1)
            \<and> getProp v1 (js ''environments'') = Some (JArr ds))"
  proof (cases "falsy v \<or> \<not> typeofObject v")
    case True
    with settings there have "descriptors st = ds"
      "w1 = writeFile wm sp (JsonText True (buildDefaultSettings cfg ds))"
      by (auto simp: ensureSettingsFile_def sp_def)
    then show ?thesis by (auto simp: writeFile_def buildDefaultSettings_props)
  next
    case False
    with v obtain ms where ms: "v = JObj ms"
      by (cases v) (simp_all add: falsy_def typeofObject_def)
    with v have items0:
      "(case getProp v (js ''environments'') of Some (JArr items) \<Rightarrow> items | _ \<Rightarrow> []) = []"
      by (auto split: option.splits json.splits)
    from settings there False items0 obtain entries1 descs1 changed1 where
      run: "reconcile 0 ds ([], ds, False) = Inr (entries1, descs1, changed1)"
      by (auto simp: ensureSettingsFile_def sp_def Let_def split: sum.splits)
    have returned: "descriptors st = descs1"
      using settings there False items0 run
      by (auto simp: ensureSettingsFile_def sp_def Let_def split: if_splits)
    from reconcile_uuids [OF run] uuids returned
    have "distinct (map (\<lambda>d. getProp d (js ''uuid'')) ds)" by simp
    then have "\<exists>entries'. reconcile 0 ds ([], ds, False) = Inr (entries', ds, False \<or> ds \<noteq> [])
        \<and> map fst entries' = map fst [] @ ds"
      using objects reconcile_fresh [of ds "[]" 0 ds False] by simp
    with run ne have fresh: "descs1 = ds" "changed1" "map fst entries1 = ds" by auto
    define settings2 where "settings2 =
        (if (case getProp v (js ''activeEnvironmentUuid'') of None \<Rightarrow> True | Some a \<Rightarrow> falsy a)
            \<and> ds \<noteq> []
         then assign (assign v (js ''environments'') (Some (JArr ds))) (js ''activeEnvironmentUuid'')
                (case ds of [] \<Rightarrow> None | first # _ \<Rightarrow> getProp first (js ''uuid''))
         else assign v (js ''environments'') (Some (JArr ds)))"
    have "ensureSettingsFile cfg wm ds = Inr (writeFile wm sp (JsonText True settings2), ds)"
      using there False items0 run fresh
      by (simp add: ensureSettingsFile_def sp_def Let_def settings2_def)
    with settings have "w1 = writeFile wm sp (JsonText True settings2)" by simp
    moreover have "getProp settings2 (js ''environments'') = Some (JArr ds)"
      unfolding settings2_def ms
      by (simp add: getProp_assign_other getProp_assign_same key_distinct)
    ultimately show ?thesis using returned fresh by (auto simp: writeFile_def)
  qed
  then have returned: "descriptors st = ds" by simp
  from written have "reconciledDescriptors gen cfg w = Some ds"
    using first by (auto simp: reconciledDescriptors_def sp_def)
  moreover have "list_all2
      (\<lambda>file d. \<exists>pretty e. files w1 file = Content (JsonText pretty e)
                   \<and> getProp e (js ''uuid'') = getProp d (js ''uuid''))
      (dataFiles st) ds"
  proof -
    have "\<exists>pretty e. files w1 (dataFilePath cfg name) = Content (JsonText pretty e)
        \<and> getProp e (js ''uuid'') = uuidAt wm (dataFilePath cfg name)"
      if "name \<in> set names" for name
    proof -
      from that some have "uuidAt wm (dataFilePath cfg name) \<noteq> None" by blast
      with ensureSettingsFile_uuidAt [OF settings this] show ?thesis
        by (auto simp: uuidAt_def split: node.splits filetext.splits)
    qed
    then have "list_all2
        (\<lambda>name d. \<exists>pretty e. files w1 (dataFilePath cfg name) = Content (JsonText pretty e)
                     \<and> getProp e (js ''uuid'') = getProp d (js ''uuid''))
        names ds"
      unfolding built by (simp add: list_all2_map2 list_all2_same newDescriptor_props)
    moreover have "dataFiles st = map (dataFilePath cfg) names"
      by (subst st) (simp add: resolveDataFiles_def dataFilePath_def)
    ultimately show ?thesis by (simp add: list_all2_map1)
  qed
  ultimately show ?thesis using len returned by (simp add: names_def)
qed

theorem descriptors_after_reconciling_witness:
  "reconciledDescriptors numbered twoFiles (withSettings emptyWorld bareSettings)
   = Some [descriptorOf (JStr (numbered 0)) (js ''a.json''),
           descriptorOf (JStr (numbered 1)) (js ''b.json'')]"
proof -
  have none: "noPriorDescriptors
      (files (withSettings emptyWorld bareSettings) (settingsPathOf twoFiles))"
    by (simp add: noPriorDescriptors_def bootstrap_run)
  have "\<exists>w1 st. ensureInitialState numbered twoFiles (withSettings emptyWorld bareSettings)
        = Inr (w1, st)
      \<and> descriptors st = [descriptorOf (JStr (numbered 0)) (js ''a.json''),
                           descriptorOf (JStr (numbered 1)) (js ''b.json'')]"
    by (simp add: bootstrap_run)
  then obtain w1 st where
    run: "ensureInitialState numbered twoFiles (withSettings emptyWorld bareSettings)
        = Inr (w1, st)"
    and ds: "descriptors st = [descriptorOf (JStr (numbered 0)) (js ''a.json''),
                               descriptorOf (JStr (numbered 1)) (js ''b.json'')]"
    by blast
  have "distinct (map (\<lambda>d. getProp d (js ''uuid'')) (descriptors st))"
    unfolding ds by (simp add: descriptorOf_props numbered_def toString10.simps)
  with run none show ?thesis
    using descriptors_after_reconciling [of numbered twoFiles _ w1 st] ds by simp
qed

section \<open>The two backends of the client\<close>






























end
